theory Spec2Isabelle
  imports Complex_Main
begin

section \<open>The particle field of \<open>obsidian-ultimate-guide.tsx\<close>\<close>

text \<open>
  The component \<open>ObsidianUltimateGuide\<close> owns two effects: a particle animation on a
  canvas and an intersection observer that reveals sections. Both are embedded here.
\<close>

subsection \<open>Numbers\<close>

text \<open>
  A JavaScript number is an IEEE 754 binary64 value. \<open>round64\<close> rounds a real number to
  the nearest binary64 value, ties to the value with an even significand: \<open>expo x\<close> is
  the binary exponent of \<open>x\<close>, \<open>quantum x\<close> the spacing of the binary64 values around
  \<open>x\<close> (53 significant bits; \<open>2 powi - 1074\<close> in the subnormal range), \<open>qexp x\<close> the
  exponent of that spacing, and the result is
  the multiple of the quantum nearest to \<open>x\<close>. The arithmetic operators round their exact
  result in this way; so does \<open>Math.sqrt\<close>, as the square root of the engines does.

  The type \<open>double\<close> holds the finite binary64 values, each with its real value \<open>val\<close>.
  Two things are left out: the sign of zero, which no statement of the component
  observes, and infinities and NaN, which its operations do not produce from the
  numbers a canvas can have (positions stay near the surface, the arguments of
  \<open>Math.sqrt\<close> are sums of squares, the only divisor is 150); the exponent of a \<open>double\<close>
  has no upper bound here.
\<close>

definition expo :: "real \<Rightarrow> int" where
  "expo x = \<lfloor>log 2 \<bar>x\<bar>\<rfloor>"

definition qexp :: "real \<Rightarrow> int" where
  "qexp x = max (expo x - 52) (- 1074)"

definition quantum :: "real \<Rightarrow> real" where
  "quantum x = 2 powi (max (expo x - 52) (- 1074))"

definition round_even :: "real \<Rightarrow> int" where
  "round_even y =
     (let f = \<lfloor>y\<rfloor>;
          d = y - of_int f
      in if d < 1 / 2 then f
         else if 1 / 2 < d then f + 1
         else if even f then f else f + 1)"

definition round64 :: "real \<Rightarrow> real" where
  "round64 x = of_int (round_even (x / quantum x)) * quantum x"

typedef double = "range round64"
  morphisms val Abs_double
  by auto

setup_lifting type_definition_double

text \<open>
  \<open>lit x\<close> is the number that the literal (or the integer) \<open>x\<close> denotes. The operators
  \<open>+\<close>, \<open>-\<close>, \<open>*\<close>, \<open>/\<close> and \<open>Math.sqrt\<close> return the exact result, rounded.
\<close>

lift_definition lit :: "real \<Rightarrow> double" is round64
  by simp

lift_definition fadd :: "double \<Rightarrow> double \<Rightarrow> double" is "\<lambda>a b. round64 (a + b)"
  by simp

lift_definition fsub :: "double \<Rightarrow> double \<Rightarrow> double" is "\<lambda>a b. round64 (a - b)"
  by simp

lift_definition fmul :: "double \<Rightarrow> double \<Rightarrow> double" is "\<lambda>a b. round64 (a * b)"
  by simp

lift_definition fdiv :: "double \<Rightarrow> double \<Rightarrow> double" is "\<lambda>a b. round64 (a / b)"
  by simp

lift_definition fsqrt :: "double \<Rightarrow> double" is "\<lambda>a. round64 (sqrt a)"
  by simp

text \<open>The comparisons \<open><\<close> and \<open>>\<close> compare the values.\<close>

instantiation double :: linorder
begin

lift_definition less_double :: "double \<Rightarrow> double \<Rightarrow> bool" is "\<lambda>a b. a < b" .

lift_definition less_eq_double :: "double \<Rightarrow> double \<Rightarrow> bool" is "\<lambda>a b. a \<le> b" .

instance
  by standard (transfer; auto)+

end

text \<open>
  The pixel dimensions of a canvas (\<open>width\<close>, \<open>height\<close>, \<open>offsetWidth\<close>, \<open>offsetHeight\<close>)
  are non-negative integers in the DOM and are natural numbers here; \<open>number\<close> is such
  an integer read as a number.
\<close>

definition number :: "nat \<Rightarrow> double" where
  "number n = lit (real n)"

subsection \<open>Data\<close>

text \<open>
  The canvas element, as far as the effect reads and writes it. \<open>offsetWidth\<close> and
  \<open>offsetHeight\<close> are the layout size, set by the host; \<open>width\<close> and \<open>height\<close> are the
  size of the drawing surface, assigned by \<open>resizeCanvas\<close>.
\<close>

record canvas =
  width :: nat
  height :: nat
  offsetWidth :: nat
  offsetHeight :: nat

text \<open>
  \<open>class Particle\<close>. The fields \<open>x\<close>, \<open>y\<close> and \<open>size\<close> of the source are \<open>px\<close>, \<open>py\<close> and
  \<open>psize\<close> (their own names would capture the variables \<open>x\<close>, \<open>y\<close> and the constant
  \<open>size\<close>).
\<close>

record particle =
  px :: double
  py :: double
  vx :: double
  vy :: double
  psize :: double

text \<open>
  \<open>Particle.update\<close>, statement by statement; \<open>c\<close> is the canvas the closure reads at the
  time of the call.
\<close>

definition update :: "canvas \<Rightarrow> particle \<Rightarrow> particle" where
  "update c p =
     (let p1 = p\<lparr>px := fadd (px p) (vx p)\<rparr>;
          p2 = p1\<lparr>py := fadd (py p1) (vy p1)\<rparr>;
          p3 = (if px p2 < lit 0 \<or> px p2 > number (width c)
                then p2\<lparr>vx := fmul (vx p2) (lit (- 1))\<rparr> else p2);
          p4 = (if py p3 < lit 0 \<or> py p3 > number (height c)
                then p3\<lparr>vy := fmul (vy p3) (lit (- 1))\<rparr> else p3)
      in p4)"

subsection \<open>Drawing\<close>

text \<open>
  What the 2D context is asked to paint, in the order of the calls. A style is the string
  assigned to \<open>fillStyle\<close> or \<open>strokeStyle\<close>: a hex colour, or \<open>rgba(r, g, b, a)\<close> with
  its opacity \<open>a\<close> kept as a number. \<open>FillCircle s x y r\<close> is \<open>beginPath\<close>,
  \<open>arc(x, y, r, 0, 2\<pi>)\<close>, \<open>fill\<close> under \<open>fillStyle = s\<close>; \<open>StrokeLine s w x1 y1 x2 y2\<close>
  is \<open>beginPath\<close>, \<open>moveTo(x1, y1)\<close>, \<open>lineTo(x2, y2)\<close>, \<open>stroke\<close> under
  \<open>strokeStyle = s\<close> and \<open>lineWidth = w\<close>.
\<close>

datatype style = Hex string | RGBA nat nat nat double

datatype draw_cmd =
  FillRect style double double double double
| FillCircle style double double double
| StrokeLine style double double double double double

text \<open>\<open>Particle.draw\<close> (its context is the non-null one the effect obtained).\<close>

definition draw :: "particle \<Rightarrow> draw_cmd" where
  "draw p = FillCircle (Hex ''#7C3AED'') (px p) (py p) (psize p)"

text \<open>
  \<open>particles.forEach((particle) => { particle.update(); particle.draw() })\<close>: the loop
  visits the indices in order, mutates the particle at index \<open>i\<close> in place and paints it
  before it moves on.
\<close>

function update_draw_loop ::
  "canvas \<Rightarrow> nat \<Rightarrow> particle list \<Rightarrow> draw_cmd list \<Rightarrow> particle list \<times> draw_cmd list" where
  "update_draw_loop c i ps out =
     (if i < length ps then
        (let p = update c (ps ! i);
             ps' = ps[i := p]
         in update_draw_loop c (i + 1) ps' (out @ [draw p]))
      else (ps, out))"
  by pat_completeness auto
termination
  by (relation "measure (\<lambda>(c, i, ps, out). length ps - i)") auto

declare update_draw_loop.simps [simp del]

text \<open>The body of the inner loop of the connection pass, for one pair \<open>p1\<close>, \<open>p2\<close>.\<close>

definition distance :: "particle \<Rightarrow> particle \<Rightarrow> double" where
  "distance p1 p2 =
     (let dx = fsub (px p1) (px p2);
          dy = fsub (py p1) (py p2)
      in fsqrt (fadd (fmul dx dx) (fmul dy dy)))"

definition connect :: "particle \<Rightarrow> particle \<Rightarrow> draw_cmd list" where
  "connect p1 p2 =
     (if distance p1 p2 < lit 150 then
        [StrokeLine (RGBA 124 58 237 (fsub (lit 1) (fdiv (distance p1 p2) (lit 150)))) (lit 0.5)
           (px p1) (py p1) (px p2) (py p2)]
      else [])"

text \<open>
  \<open>particles.forEach((p1, i) => particles.slice(i + 1).forEach((p2) => ...))\<close>.
\<close>

definition connections :: "particle list \<Rightarrow> draw_cmd list" where
  "connections ps =
     concat (map (\<lambda>i. concat (map (\<lambda>p2. connect (ps ! i) p2) (drop (i + 1) ps)))
       [0..<length ps])"

text \<open>
  The body of \<open>animate\<close> up to its last statement: the translucent overlay, the
  update-and-draw loop, the connection pass. It returns the particles as the frame leaves
  them and what the frame painted.
\<close>

definition animate_frame :: "canvas \<Rightarrow> particle list \<Rightarrow> particle list \<times> draw_cmd list" where
  "animate_frame c ps =
     (let out0 = [FillRect (RGBA 15 15 26 (lit 0.1)) (lit 0) (lit 0)
                    (number (width c)) (number (height c))];
          (ps1, out1) = update_draw_loop c 0 ps out0
      in (ps1, out1 @ connections ps1))"

text \<open>
  The frame as the specification words it, in separate passes: paint the overlay, advance
  every particle, draw every particle, draw the connections.
\<close>

definition advance_all :: "canvas \<Rightarrow> particle list \<Rightarrow> particle list" where
  "advance_all c ps = map (update c) ps"

definition draw_all :: "particle list \<Rightarrow> draw_cmd list" where
  "draw_all ps = map draw ps"

definition two_pass_frame :: "canvas \<Rightarrow> particle list \<Rightarrow> particle list \<times> draw_cmd list" where
  "two_pass_frame c ps =
     (let overlay = [FillRect (RGBA 15 15 26 (lit 0.1)) (lit 0) (lit 0)
                       (number (width c)) (number (height c))];
          moved = advance_all c ps
      in (moved, overlay @ draw_all moved @ connections moved))"

text \<open>
  The pairs of indices \<open>(i, j)\<close> with \<open>i < j < n\<close>, in the order the nested loops of the
  connection pass reach them.
\<close>

definition index_pairs :: "nat \<Rightarrow> (nat \<times> nat) list" where
  "index_pairs n = concat (map (\<lambda>i. map (Pair i) [i + 1..<n]) [0..<n])"

subsection \<open>Creating the particles\<close>

text \<open>
  \<open>Particle.constructor\<close>. It calls \<open>Math.random()\<close> five times; \<open>r1\<close> to \<open>r5\<close> are the
  values those calls return, in the order of the calls.
\<close>

definition Particle_new ::
  "canvas \<Rightarrow> double \<Rightarrow> double \<Rightarrow> double \<Rightarrow> double \<Rightarrow> double \<Rightarrow> particle" where
  "Particle_new c r1 r2 r3 r4 r5 =
     \<lparr>px = fmul r1 (number (width c)),
      py = fmul r2 (number (height c)),
      vx = fmul (fsub r3 (lit 0.5)) (lit 0.5),
      vy = fmul (fsub r4 (lit 0.5)) (lit 0.5),
      psize = fadd (fmul r5 (lit 2)) (lit 1)\<rparr>"

definition particleCount :: nat where
  "particleCount = 80"

text \<open>
  \<open>for (let i = 0; i < particleCount; i++) particles.push(new Particle())\<close>. The random
  source is the sequence \<open>rnd\<close> of the values that the successive calls of
  \<open>Math.random()\<close> return; the particle of round \<open>i\<close> consumes \<open>rnd (5 * i)\<close> to
  \<open>rnd (5 * i + 4)\<close>.
\<close>

function create_particles ::
  "canvas \<Rightarrow> (nat \<Rightarrow> double) \<Rightarrow> nat \<Rightarrow> particle list \<Rightarrow> particle list" where
  "create_particles c rnd i ps =
     (if i < particleCount then
        create_particles c rnd (i + 1)
          (ps @ [Particle_new c (rnd (5 * i)) (rnd (5 * i + 1)) (rnd (5 * i + 2))
                   (rnd (5 * i + 3)) (rnd (5 * i + 4))])
      else ps)"
  by pat_completeness auto
termination
  by (relation "measure (\<lambda>(c, rnd, i, ps). particleCount - i)") auto

declare create_particles.simps [simp del]

text \<open>The particle that round \<open>i\<close> of the loop constructs.\<close>

definition nth_particle :: "canvas \<Rightarrow> (nat \<Rightarrow> double) \<Rightarrow> nat \<Rightarrow> particle" where
  "nth_particle c rnd i =
     Particle_new c (rnd (5 * i)) (rnd (5 * i + 1)) (rnd (5 * i + 2))
       (rnd (5 * i + 3)) (rnd (5 * i + 4))"

subsection \<open>The component and its host\<close>

text \<open>
  The state of the mounted component together with the part of the host it talks to.
  \<^item> \<open>canvasRef\<close> is \<open>canvasRef.current\<close>: the canvas element, or nothing when it is not
    mounted. \<open>context2d\<close> tells whether \<open>getContext('2d')\<close> yields a context.
  \<^item> \<open>resizeListener\<close> tells whether \<open>resizeCanvas\<close> is registered for the window's
    \<open>resize\<close> event.
  \<^item> \<open>particles\<close> and \<open>animationId\<close> are the variables of the effect's closure
    (\<open>animationId\<close> is unassigned until the first frame has run).
  \<^item> \<open>frameRequests\<close> is the host's list of pending \<open>requestAnimationFrame\<close> callbacks,
    by handle (the callback is always \<open>animate\<close>); \<open>nextRequest\<close> is the handle the next
    request returns.
  \<^item> \<open>painted\<close> is everything painted on the canvas so far.
  \<^item> \<open>cleanupInstalled\<close> tells whether the particle effect returned its cleanup function.
  \<^item> \<open>observing\<close> tells whether the \<open>IntersectionObserver\<close> is connected.
  \<^item> \<open>isVisible\<close> is the React state of that name: an object from section ids to
    booleans, empty at first.
\<close>

record page =
  canvasRef :: "canvas option"
  context2d :: bool
  resizeListener :: bool
  particles :: "particle list"
  animationId :: "nat option"
  frameRequests :: "nat list"
  nextRequest :: nat
  painted :: "draw_cmd list"
  cleanupInstalled :: bool
  observing :: bool
  isVisible :: "string \<rightharpoonup> bool"

definition initial :: "canvas option \<Rightarrow> bool \<Rightarrow> page" where
  "initial cv ok =
     \<lparr>canvasRef = cv, context2d = ok, resizeListener = False, particles = [],
      animationId = None, frameRequests = [], nextRequest = 1, painted = [],
      cleanupInstalled = False, observing = False, isVisible = Map.empty\<rparr>"

text \<open>\<open>resizeCanvas\<close>.\<close>

definition resizeCanvas :: "canvas \<Rightarrow> canvas" where
  "resizeCanvas c = (let c1 = c\<lparr>width := offsetWidth c\<rparr> in c1\<lparr>height := offsetHeight c1\<rparr>)"

text \<open>
  The host's frame scheduler: a request appends a fresh handle to the pending list and
  returns it; cancelling removes the handle (cancelling an unassigned handle does
  nothing).
\<close>

definition requestAnimationFrame :: "page \<Rightarrow> nat \<times> page" where
  "requestAnimationFrame st =
     (nextRequest st,
      st\<lparr>frameRequests := frameRequests st @ [nextRequest st],
         nextRequest := nextRequest st + 1\<rparr>)"

definition cancelAnimationFrame :: "nat option \<Rightarrow> page \<Rightarrow> page" where
  "cancelAnimationFrame h st =
     (case h of
        None \<Rightarrow> st
      | Some k \<Rightarrow> st\<lparr>frameRequests := removeAll k (frameRequests st)\<rparr>)"

text \<open>
  \<open>animate\<close>: one frame, then \<open>animationId = requestAnimationFrame(animate)\<close>. The closure
  exists only in an effect that found its canvas.
\<close>

definition animate :: "page \<Rightarrow> page" where
  "animate st =
     (case canvasRef st of
        None \<Rightarrow> st
      | Some c \<Rightarrow>
          (let (ps, out) = animate_frame c (particles st);
               st1 = st\<lparr>particles := ps, painted := painted st @ out\<rparr>;
               (k, st2) = requestAnimationFrame st1
           in st2\<lparr>animationId := Some k\<rparr>))"

text \<open>
  The first effect (particle animation), with its two early returns, and the cleanup
  function it returns at its end.
\<close>

definition particle_effect :: "(nat \<Rightarrow> double) \<Rightarrow> page \<Rightarrow> page" where
  "particle_effect rnd st =
     (case canvasRef st of
        None \<Rightarrow> st
      | Some cv \<Rightarrow>
          if \<not> context2d st then st
          else
            (let st1 = st\<lparr>canvasRef := Some (resizeCanvas cv)\<rparr>;
                 st2 = st1\<lparr>resizeListener := True\<rparr>;
                 st3 = st2\<lparr>particles := create_particles (resizeCanvas cv) rnd 0 []\<rparr>;
                 st4 = animate st3
             in st4\<lparr>cleanupInstalled := True\<rparr>))"

definition particle_cleanup :: "page \<Rightarrow> page" where
  "particle_cleanup st =
     (let st1 = st\<lparr>resizeListener := False\<rparr>
      in cancelAnimationFrame (animationId st1) st1)"

text \<open>
  An \<open>IntersectionObserverEntry\<close>, as far as the callback reads it: \<open>entry.target.id\<close> and
  \<open>entry.isIntersecting\<close>. The observer is constructed with \<open>threshold: 0.1\<close>; whether an
  event is at or above that threshold is the host's verdict, and \<open>isIntersecting\<close> is
  the form in which the callback receives it.
\<close>

record entry =
  target_id :: string
  isIntersecting :: bool

text \<open>
  The observer's callback: each \<open>setIsVisible((prev) => ({ ...prev, [id]: true }))\<close> is
  applied to the state the previous one left.
\<close>

definition setIsVisible_true :: "string \<Rightarrow> (string \<rightharpoonup> bool) \<Rightarrow> (string \<rightharpoonup> bool)" where
  "setIsVisible_true k prev = prev(k \<mapsto> True)"

fun observer_callback :: "entry list \<Rightarrow> (string \<rightharpoonup> bool) \<Rightarrow> (string \<rightharpoonup> bool)" where
  "observer_callback [] m = m"
| "observer_callback (e # es) m =
     observer_callback es (if isIntersecting e then setIsVisible_true (target_id e) m else m)"

text \<open>
  How the page reads a flag (\<open>isVisible.concepts ? ... : ...\<close>): a missing key is
  \<open>undefined\<close>, which counts as false.
\<close>

definition visible :: "(string \<rightharpoonup> bool) \<Rightarrow> string \<Rightarrow> bool" where
  "visible m k = (case m k of None \<Rightarrow> False | Some b \<Rightarrow> b)"

text \<open>The second effect (it starts to observe the sections) and its cleanup.\<close>

definition observer_effect :: "page \<Rightarrow> page" where
  "observer_effect st = st\<lparr>observing := True\<rparr>"

definition observer_cleanup :: "page \<Rightarrow> page" where
  "observer_cleanup st = st\<lparr>observing := False\<rparr>"

text \<open>
  Mounting runs the effects in their order. Unmounting runs the cleanup functions that
  the effects returned.
\<close>

definition mount :: "(nat \<Rightarrow> double) \<Rightarrow> page \<Rightarrow> page" where
  "mount rnd st = observer_effect (particle_effect rnd st)"

definition unmount :: "page \<Rightarrow> page" where
  "unmount st = observer_cleanup (if cleanupInstalled st then particle_cleanup st else st)"

text \<open>
  What the host can do to a mounted page.
  \<^item> \<open>Refresh\<close>: a display refresh; the host takes the pending frame requests and runs
    their callback, once for each.
  \<^item> \<open>WindowResize w h\<close>: the layout gives the canvas the size \<open>w\<close> by \<open>h\<close>, and the
    window's \<open>resize\<close> event runs \<open>resizeCanvas\<close> if it is registered.
  \<^item> \<open>Intersections es\<close>: the observer has the entries \<open>es\<close>; it delivers them to its
    callback if it is connected.
  \<^item> \<open>Unmount\<close>: the component is torn down.
\<close>

datatype event = Refresh | WindowResize nat nat | Intersections "entry list" | Unmount

fun run_callbacks :: "nat list \<Rightarrow> page \<Rightarrow> page" where
  "run_callbacks [] st = st"
| "run_callbacks (k # ks) st = run_callbacks ks (animate st)"

fun step :: "event \<Rightarrow> page \<Rightarrow> page" where
  "step Refresh st = run_callbacks (frameRequests st) (st\<lparr>frameRequests := []\<rparr>)"
| "step (WindowResize w h) st =
     (let st1 = st\<lparr>canvasRef :=
                  map_option (\<lambda>c. c\<lparr>offsetWidth := w, offsetHeight := h\<rparr>) (canvasRef st)\<rparr>
      in if resizeListener st1
         then st1\<lparr>canvasRef := map_option resizeCanvas (canvasRef st1)\<rparr>
         else st1)"
| "step (Intersections es) st =
     (if observing st then st\<lparr>isVisible := observer_callback es (isVisible st)\<rparr> else st)"
| "step Unmount st = unmount st"

fun run :: "event list \<Rightarrow> page \<Rightarrow> page" where
  "run [] st = st"
| "run (e # es) st = run es (step e st)"

text \<open>
  An event qualifies for the section \<open>k\<close> when it is a batch of entries one of which
  reports \<open>k\<close> as intersecting.
\<close>

fun qualifying :: "string \<Rightarrow> event \<Rightarrow> bool" where
  "qualifying k (Intersections es) = (\<exists>e\<in>set es. target_id e = k \<and> isIntersecting e)"
| "qualifying k e = False"

text \<open>
  Three properties of a page, used as invariants of its runs.
  \<^item> \<open>single_request\<close>: at most one frame request is pending, and it is the one whose handle
    \<open>animationId\<close> holds; a page whose particle effect installed no cleanup has no pending
    request and no resize listener.
  \<^item> \<open>quiet\<close>: nothing of the component is registered with the host any more.
  \<^item> \<open>idle\<close>: the particle effect has done nothing.
\<close>

definition single_request :: "page \<Rightarrow> bool" where
  "single_request st =
     ((frameRequests st = [] \<or> map Some (frameRequests st) = [animationId st])
      \<and> (cleanupInstalled st \<or> (frameRequests st = [] \<and> \<not> resizeListener st)))"

definition quiet :: "page \<Rightarrow> bool" where
  "quiet st = (frameRequests st = [] \<and> \<not> resizeListener st \<and> \<not> observing st)"

definition idle :: "page \<Rightarrow> bool" where
  "idle st =
     (particles st = [] \<and> painted st = [] \<and> frameRequests st = []
      \<and> \<not> resizeListener st \<and> \<not> cleanupInstalled st \<and> animationId st = None)"

subsection \<open>Bounds and bounces\<close>

text \<open>A coordinate is inside when it lies in the closed range of the surface.\<close>

definition x_inside :: "canvas \<Rightarrow> particle \<Rightarrow> bool" where
  "x_inside c p = (lit 0 \<le> px p \<and> px p \<le> number (width c))"

definition y_inside :: "canvas \<Rightarrow> particle \<Rightarrow> bool" where
  "y_inside c p = (lit 0 \<le> py p \<and> py p \<le> number (height c))"

text \<open>
  A coordinate is settled when it is inside now or will be inside once the velocity has
  been added: inside, or one move outside and on its way back. A particle is slow along
  an axis when its velocity component lies within the range the constructor draws it
  from.
\<close>

definition x_settled :: "canvas \<Rightarrow> particle \<Rightarrow> bool" where
  "x_settled c p = (x_inside c p \<or> x_inside c (p\<lparr>px := fadd (px p) (vx p)\<rparr>))"

definition y_settled :: "canvas \<Rightarrow> particle \<Rightarrow> bool" where
  "y_settled c p = (y_inside c p \<or> y_inside c (p\<lparr>py := fadd (py p) (vy p)\<rparr>))"

definition x_slow :: "particle \<Rightarrow> bool" where
  "x_slow p = (lit (- 0.25) \<le> vx p \<and> vx p \<le> lit 0.25)"

definition y_slow :: "particle \<Rightarrow> bool" where
  "y_slow p = (lit (- 0.25) \<le> vy p \<and> vy p \<le> lit 0.25)"

text \<open>
  A particle's life as a list of canvases: the bounds in force at each of its successive
  update steps (a resize between two frames shows as two different neighbours). For the
  \<open>x\<close> axis, \<open>x_inversions\<close> counts the steps that invert the sign of a non-zero \<open>vx\<close>,
  \<open>x_crossings\<close> the steps that carry \<open>x\<close> from inside the bounds to outside them, and
  \<open>x_stranded\<close> the steps of a moving particle that \<open>x\<close> both begins and ends outside the
  bounds; likewise for \<open>y\<close>.
\<close>

fun x_inversions :: "canvas list \<Rightarrow> particle \<Rightarrow> nat" where
  "x_inversions [] p = 0"
| "x_inversions (c # cs) p =
     (if vx p \<noteq> lit 0 \<and> vx (update c p) = fmul (vx p) (lit (- 1)) then 1 else 0)
       + x_inversions cs (update c p)"

fun y_inversions :: "canvas list \<Rightarrow> particle \<Rightarrow> nat" where
  "y_inversions [] p = 0"
| "y_inversions (c # cs) p =
     (if vy p \<noteq> lit 0 \<and> vy (update c p) = fmul (vy p) (lit (- 1)) then 1 else 0)
       + y_inversions cs (update c p)"

fun x_crossings :: "canvas list \<Rightarrow> particle \<Rightarrow> nat" where
  "x_crossings [] p = 0"
| "x_crossings (c # cs) p =
     (if x_inside c p \<and> \<not> x_inside c (update c p) then 1 else 0) + x_crossings cs (update c p)"

fun y_crossings :: "canvas list \<Rightarrow> particle \<Rightarrow> nat" where
  "y_crossings [] p = 0"
| "y_crossings (c # cs) p =
     (if y_inside c p \<and> \<not> y_inside c (update c p) then 1 else 0) + y_crossings cs (update c p)"

fun x_stranded :: "canvas list \<Rightarrow> particle \<Rightarrow> nat" where
  "x_stranded [] p = 0"
| "x_stranded (c # cs) p =
     (if vx p \<noteq> lit 0 \<and> \<not> x_inside c p \<and> \<not> x_inside c (update c p) then 1 else 0)
       + x_stranded cs (update c p)"

fun y_stranded :: "canvas list \<Rightarrow> particle \<Rightarrow> nat" where
  "y_stranded [] p = 0"
| "y_stranded (c # cs) p =
     (if vy p \<noteq> lit 0 \<and> \<not> y_inside c p \<and> \<not> y_inside c (update c p) then 1 else 0)
       + y_stranded cs (update c p)"

subsection \<open>Rounding to binary64\<close>

lemma two_powi_le_iff [simp]: "(2::real) powi a \<le> 2 powi b \<longleftrightarrow> a \<le> b"
proof
  assume "(2::real) powi a \<le> 2 powi b"
  show "a \<le> b"
  proof (rule ccontr)
    assume "\<not> a \<le> b"
    then have "(2::real) powi b < 2 powi a"
      by (intro power_int_strict_increasing) simp_all
    with \<open>(2::real) powi a \<le> 2 powi b\<close> show False by simp
  qed
next
  assume "a \<le> b"
  then show "(2::real) powi a \<le> 2 powi b"
    by (intro power_int_increasing) simp_all
qed

lemma two_powi_less_iff [simp]: "(2::real) powi a < 2 powi b \<longleftrightarrow> a < b"
  using two_powi_le_iff [of b a] by (simp add: not_le [symmetric] del: two_powi_le_iff)

lemma quantum_pos [simp]: "0 < quantum x"
  by (simp add: quantum_def)

lemma expo_eq_iff:
  "x \<noteq> 0 \<Longrightarrow> expo x = k \<longleftrightarrow> 2 powi k \<le> \<bar>x\<bar> \<and> \<bar>x\<bar> < 2 powi (k + 1)"
proof -
  assume "x \<noteq> 0"
  then have pos: "0 < \<bar>x\<bar>" by simp
  have a: "(2::real) powr real_of_int k = 2 powi k"
    by (rule powr_real_of_int') simp_all
  have b: "(2::real) powr (real_of_int k + 1) = 2 powi (k + 1)"
    using powr_real_of_int' [of "2::real" "k + 1"] by simp
  show ?thesis
    unfolding expo_def using floor_log_eq_powr_iff [OF pos, of 2 k] by (simp add: a b)
qed

lemma expo_bounds:
  "x \<noteq> 0 \<Longrightarrow> 2 powi expo x \<le> \<bar>x\<bar>" "x \<noteq> 0 \<Longrightarrow> \<bar>x\<bar> < 2 powi (expo x + 1)"
  using expo_eq_iff [of x "expo x"] by simp_all

lemma expo_eqI: "2 powi k \<le> \<bar>x\<bar> \<Longrightarrow> \<bar>x\<bar> < 2 powi (k + 1) \<Longrightarrow> expo x = k"
proof -
  assume a: "2 powi k \<le> \<bar>x\<bar>" and b: "\<bar>x\<bar> < 2 powi (k + 1)"
  have "(0::real) < 2 powi k" by simp
  with a have "0 < \<bar>x\<bar>" by linarith
  then have "x \<noteq> 0" by simp
  with a b show ?thesis by (simp add: expo_eq_iff)
qed

lemma expo_minus [simp]: "expo (- x) = expo x"
  by (simp add: expo_def)

lemma quantum_minus [simp]: "quantum (- x) = quantum x"
  by (simp add: quantum_def)

lemma expo_mono: "x \<noteq> 0 \<Longrightarrow> \<bar>x\<bar> \<le> \<bar>y\<bar> \<Longrightarrow> expo x \<le> expo y"
proof -
  assume x: "x \<noteq> 0" and le: "\<bar>x\<bar> \<le> \<bar>y\<bar>"
  then have y: "y \<noteq> 0" by auto
  have "(2::real) powi expo x \<le> \<bar>x\<bar>" using x by (rule expo_bounds)
  also have "\<dots> \<le> \<bar>y\<bar>" by (rule le)
  also have "\<dots> < 2 powi (expo y + 1)" using y by (rule expo_bounds)
  finally have "(2::real) powi expo x < 2 powi (expo y + 1)" .
  then show ?thesis by simp
qed

lemma round_even_of_int [simp]: "round_even (of_int n) = n"
  by (simp add: round_even_def)

lemma round_even_near: "\<bar>y - of_int n\<bar> < 1 / 2 \<Longrightarrow> round_even y = n"
proof -
  assume a: "\<bar>y - of_int n\<bar> < 1 / 2"
  show ?thesis
  proof (cases "of_int n \<le> y")
    case True
    with a have "\<lfloor>y\<rfloor> = n" by (intro floor_unique) auto
    with a True show ?thesis by (simp add: round_even_def)
  next
    case False
    with a have f: "\<lfloor>y\<rfloor> = n - 1" by (intro floor_unique) auto
    with a False show ?thesis by (simp add: round_even_def)
  qed
qed

lemma round_even_le: "y \<le> of_int n \<Longrightarrow> round_even y \<le> n"
proof -
  assume a: "y \<le> of_int n"
  show ?thesis
  proof (cases "y = of_int n")
    case True
    then show ?thesis by simp
  next
    case False
    with a have "y < of_int n" by simp
    then have "\<lfloor>y\<rfloor> < n" by (simp add: floor_less_iff)
    then have "\<lfloor>y\<rfloor> + 1 \<le> n" by simp
    then show ?thesis by (simp add: round_even_def Let_def)
  qed
qed

lemma round_even_ge: "of_int n \<le> y \<Longrightarrow> n \<le> round_even y"
proof -
  assume "of_int n \<le> y"
  then have "n \<le> \<lfloor>y\<rfloor>" by (simp add: le_floor_iff)
  then show ?thesis by (simp add: round_even_def Let_def)
qed

lemma round_even_mono: "x \<le> y \<Longrightarrow> round_even x \<le> round_even y"
proof -
  assume xy: "x \<le> y"
  have fl: "\<lfloor>x\<rfloor> \<le> \<lfloor>y\<rfloor>" using xy by (rule floor_mono)
  show ?thesis
  proof (cases "\<lfloor>x\<rfloor> = \<lfloor>y\<rfloor>")
    case True
    then have "x - of_int \<lfloor>x\<rfloor> \<le> y - of_int \<lfloor>y\<rfloor>" using xy by simp
    with True show ?thesis by (auto simp: round_even_def Let_def)
  next
    case False
    with fl have "\<lfloor>x\<rfloor> + 1 \<le> \<lfloor>y\<rfloor>" by simp
    moreover have "round_even x \<le> \<lfloor>x\<rfloor> + 1" by (simp add: round_even_def Let_def)
    moreover have "\<lfloor>y\<rfloor> \<le> round_even y" by (simp add: round_even_def Let_def)
    ultimately show ?thesis by linarith
  qed
qed

lemma round_even_minus: "round_even (- y) = - round_even y"
proof (cases "y = of_int \<lfloor>y\<rfloor>")
  case True
  then obtain n where "y = of_int n" ..
  then have "- y = of_int (- n)" by simp
  then show ?thesis using \<open>y = of_int n\<close> by (simp only: round_even_of_int)
next
  case False
  then have nz: "y \<notin> \<int>" by (auto elim!: Ints_cases)
  have f: "\<lfloor>- y\<rfloor> = - \<lfloor>y\<rfloor> - 1"
    using False by (simp add: floor_minus ceiling_altdef)
  have d: "0 < y - of_int \<lfloor>y\<rfloor>" using False of_int_floor_le [of y] by linarith
  show ?thesis
    using d f by (auto simp: round_even_def Let_def)
qed

lemma round64_minus: "round64 (- x) = - round64 x"
  by (simp add: round64_def round_even_minus)

lemma round64_zero [simp]: "round64 0 = 0"
  using round_even_of_int [of 0] by (simp add: round64_def del: round_even_of_int)

lemma round64_le_multiple: "x \<le> of_int n * quantum x \<Longrightarrow> round64 x \<le> of_int n * quantum x"
proof -
  assume "x \<le> of_int n * quantum x"
  then have "x / quantum x \<le> of_int n" by (simp add: pos_divide_le_eq)
  then have "round_even (x / quantum x) \<le> n" by (rule round_even_le)
  then have "(of_int (round_even (x / quantum x)) :: real) \<le> of_int n" by simp
  moreover have "0 \<le> quantum x" by (rule less_imp_le) (rule quantum_pos)
  ultimately show ?thesis
    unfolding round64_def by (rule mult_right_mono)
qed

lemma round64_ge_multiple: "of_int n * quantum x \<le> x \<Longrightarrow> of_int n * quantum x \<le> round64 x"
proof -
  assume "of_int n * quantum x \<le> x"
  then have "of_int n \<le> x / quantum x" by (simp add: pos_le_divide_eq)
  then have "n \<le> round_even (x / quantum x)" by (rule round_even_ge)
  then have "(of_int n :: real) \<le> of_int (round_even (x / quantum x))" by simp
  moreover have "0 \<le> quantum x" by (rule less_imp_le) (rule quantum_pos)
  ultimately show ?thesis
    unfolding round64_def by (rule mult_right_mono)
qed

lemma round64_fixed: "x = of_int n * quantum x \<Longrightarrow> round64 x = x"
  using round64_le_multiple [of x n] round64_ge_multiple [of n x] by simp

lemma quantum_qexp: "quantum x = 2 powi qexp x"
  by (simp add: quantum_def qexp_def)

lemma powi_diff_int: "e' \<le> e \<Longrightarrow> (2::real) powi e = of_int (2 ^ nat (e - e')) * 2 powi e'"
proof -
  assume "e' \<le> e"
  then have n: "0 \<le> e - e'" by simp
  have "(2::real) powi e = 2 powi ((e - e') + e')" by simp
  also have "\<dots> = 2 powi (e - e') * 2 powi e'"
    by (rule power_int_add) simp
  also have "(2::real) powi (e - e') = 2 ^ nat (e - e')"
    using n by (rule power_int_nonneg_exp)
  finally show ?thesis by simp
qed

lemma round64_representable_lt:
  assumes "\<bar>m\<bar> < 2 ^ 53" and "- 1074 \<le> e"
  shows "round64 (of_int m * 2 powi e) = of_int m * 2 powi e"
proof (cases "m = 0")
  case True
  then show ?thesis by simp
next
  case False
  let ?x = "of_int m * (2::real) powi e"
  have nz: "?x \<noteq> 0" using False by simp
  have "\<bar>?x\<bar> = of_int \<bar>m\<bar> * 2 powi e" by (simp add: abs_mult)
  also have "\<dots> < 2 ^ 53 * 2 powi e"
  proof -
    have "(of_int \<bar>m\<bar> :: real) < of_int (2 ^ 53)" using assms(1) by (simp only: of_int_less_iff)
    then show ?thesis by simp
  qed
  also have "\<dots> = 2 powi (e + 53)"
    by (subst power_int_add) simp_all
  finally have "\<bar>?x\<bar> < 2 powi (e + 53)" .
  with expo_bounds(1) [OF nz] have "(2::real) powi expo ?x < 2 powi (e + 53)" by linarith
  then have "expo ?x < e + 53" by simp
  then have le: "qexp ?x \<le> e" using assms(2) by (simp add: qexp_def)
  have "?x = of_int (m * 2 ^ nat (e - qexp ?x)) * quantum ?x"
    unfolding quantum_qexp by (subst powi_diff_int [OF le]) simp
  then show ?thesis by (rule round64_fixed)
qed

lemma round64_representable:
  assumes "\<bar>m\<bar> \<le> 2 ^ 53" and "- 1074 \<le> e"
  shows "round64 (of_int m * 2 powi e) = of_int m * 2 powi e"
proof (cases "\<bar>m\<bar> < 2 ^ 53")
  case True
  then show ?thesis using assms(2) by (rule round64_representable_lt)
next
  case False
  with assms(1) have "\<bar>m\<bar> = 2 ^ 53" by simp
  then have "m = 2 ^ 53 \<or> m = - (2 ^ 53)" by linarith
  then have m: "m = 2 * (m div 2)" and h: "\<bar>m div 2\<bar> < 2 ^ 53" by auto
  have "of_int m * (2::real) powi e = of_int (m div 2) * 2 powi (e + 1)"
    by (subst m) (simp add: power_int_add)
  moreover have "round64 (of_int (m div 2) * 2 powi (e + 1)) = of_int (m div 2) * 2 powi (e + 1)"
    using h assms(2) by (intro round64_representable_lt) simp_all
  ultimately show ?thesis by simp
qed

lemma scaled_bound: "\<bar>x / quantum x\<bar> < 2 ^ 53"
proof (cases "x = 0")
  case True
  then show ?thesis by simp
next
  case False
  have "\<bar>x\<bar> < 2 powi (expo x + 1)" using False by (rule expo_bounds)
  also have "\<dots> \<le> 2 powi (qexp x + 53)" by (simp add: qexp_def)
  also have "\<dots> = 2 ^ 53 * quantum x"
    unfolding quantum_qexp by (subst power_int_add) simp_all
  finally have "\<bar>x\<bar> / quantum x < 2 ^ 53"
    by (simp add: pos_divide_less_eq)
  then show ?thesis by (simp add: abs_divide abs_of_pos [OF quantum_pos])
qed

lemma round_even_scaled_bound: "\<bar>round_even (x / quantum x)\<bar> \<le> 2 ^ 53"
proof -
  have "x / quantum x \<le> 2 ^ 53" and "- (2 ^ 53) \<le> x / quantum x"
    using scaled_bound [of x] by linarith+
  then have a: "x / quantum x \<le> of_int (2 ^ 53)" and b: "of_int (- (2 ^ 53)) \<le> x / quantum x"
    by simp_all
  have "round_even (x / quantum x) \<le> 2 ^ 53" using a by (rule round_even_le)
  moreover have "- (2 ^ 53) \<le> round_even (x / quantum x)" using b by (rule round_even_ge)
  ultimately show ?thesis by simp
qed

lemma round64_idem [simp]: "round64 (round64 x) = round64 x"
proof -
  have "- 1074 \<le> qexp x" by (simp add: qexp_def)
  with round_even_scaled_bound [of x] show ?thesis
    unfolding round64_def [of x] quantum_qexp [of x] by (rule round64_representable)
qed

lemma round64_nonneg: "0 \<le> x \<Longrightarrow> 0 \<le> round64 x"
  using round64_ge_multiple [of 0 x] by simp

lemma round64_nonpos: "x \<le> 0 \<Longrightarrow> round64 x \<le> 0"
  using round64_le_multiple [of x 0] by simp

lemma round64_mono_pos:
  assumes "0 < x" and "x \<le> y"
  shows "round64 x \<le> round64 y"
proof (cases "qexp x = qexp y")
  case True
  then have q: "quantum x = quantum y" by (simp add: quantum_qexp)
  have "x / quantum y \<le> y / quantum y"
    using assms(2) by (simp add: divide_right_mono less_imp_le)
  then have "round_even (x / quantum y) \<le> round_even (y / quantum y)" by (rule round_even_mono)
  then have "(of_int (round_even (x / quantum y)) :: real) \<le> of_int (round_even (y / quantum y))"
    by simp
  moreover have "0 \<le> quantum y" by (rule less_imp_le) (rule quantum_pos)
  ultimately show ?thesis
    unfolding round64_def q by (rule mult_right_mono)
next
  case False
  have xy: "expo x \<le> expo y" using assms by (intro expo_mono) simp_all
  then have "qexp x \<le> qexp y" by (simp add: qexp_def)
  with False have lt: "qexp x < qexp y" by simp
  then have ey: "qexp y = expo y - 52" and exy: "expo x < expo y"
    by (auto simp: qexp_def max_def split: if_splits)
  let ?B = "(2::real) powi expo y"
  have xB: "x \<le> ?B"
  proof -
    have "\<bar>x\<bar> < 2 powi (expo x + 1)" using assms(1) by (intro expo_bounds) simp
    also have "\<dots> \<le> ?B" using exy by simp
    finally show ?thesis by simp
  qed
  have By: "?B \<le> y"
    using expo_bounds(1) [of y] assms by simp
  have Bx: "?B = of_int (2 ^ nat (expo y - qexp x)) * quantum x"
    unfolding quantum_qexp using lt ey by (intro powi_diff_int) simp
  have By': "?B = of_int (2 ^ nat (expo y - qexp y)) * quantum y"
    unfolding quantum_qexp using ey by (intro powi_diff_int) simp
  have "round64 x \<le> ?B"
    using xB round64_le_multiple [of x "2 ^ nat (expo y - qexp x)"] Bx by simp
  moreover have "?B \<le> round64 y"
    using By round64_ge_multiple [of "2 ^ nat (expo y - qexp y)" y] By' by simp
  ultimately show ?thesis by simp
qed

lemma round64_mono: "x \<le> y \<Longrightarrow> round64 x \<le> round64 y"
proof -
  assume xy: "x \<le> y"
  consider "0 < x" | "x \<le> 0" "0 \<le> y" | "y < 0" by linarith
  then show ?thesis
  proof cases
    case 1
    then show ?thesis using xy by (rule round64_mono_pos)
  next
    case 2
    then show ?thesis using round64_nonpos [of x] round64_nonneg [of y] by simp
  next
    case 3
    then have "0 < - y" and "- y \<le> - x" using xy by simp_all
    then have "round64 (- y) \<le> round64 (- x)" by (rule round64_mono_pos)
    then show ?thesis by (simp add: round64_minus)
  qed
qed

lemma qexp_normal: "2 powi k \<le> \<bar>x\<bar> \<Longrightarrow> \<bar>x\<bar> < 2 powi (k + 1) \<Longrightarrow> - 1022 \<le> k \<Longrightarrow> qexp x = k - 52"
  by (simp add: qexp_def expo_eqI)

lemma round64_scaled:
  assumes "2 ^ 52 \<le> \<bar>x\<bar> * 2 ^ n" and "\<bar>x\<bar> * 2 ^ n < 2 ^ 53" and "n \<le> 1074"
  shows "round64 x = of_int (round_even (x * 2 ^ n)) / 2 ^ n"
proof -
  have p: "(2::real) powi (52 - int n) = 2 ^ 52 / 2 ^ n"
    by (simp add: power_int_diff)
  have p': "(2::real) powi (52 - int n + 1) = 2 ^ 53 / 2 ^ n"
    by (simp add: power_int_diff power_int_add)
  have "2 powi (52 - int n) \<le> \<bar>x\<bar>"
    unfolding p using assms(1) by (simp add: pos_divide_le_eq)
  moreover have "\<bar>x\<bar> < 2 powi (52 - int n + 1)"
    unfolding p' using assms(2) by (simp add: pos_less_divide_eq)
  ultimately have "qexp x = 52 - int n - 52"
    using assms(3) by (intro qexp_normal) simp_all
  then have "quantum x = 2 powi (- int n)" by (simp add: quantum_qexp)
  then have q: "quantum x = 1 / 2 ^ n" by (simp add: power_int_minus_divide)
  show ?thesis unfolding round64_def q by simp
qed

lemma round64_near:
  assumes "2 ^ 52 \<le> \<bar>x\<bar> * 2 ^ n" and "\<bar>x\<bar> * 2 ^ n < 2 ^ 53" and "n \<le> 1074"
    and "\<bar>x * 2 ^ n - of_int m\<bar> < 1 / 2"
  shows "round64 x = of_int m / 2 ^ n"
  using round64_scaled [OF assms(1-3)] round_even_near [OF assms(4)] by simp

lemma round64_dyadic:
  assumes "x * 2 ^ n = of_int m" and "\<bar>m\<bar> \<le> 2 ^ 53" and "n \<le> 1074"
  shows "round64 x = x"
proof -
  have "x = of_int m / 2 ^ n" using assms(1) by (simp add: field_simps)
  also have "\<dots> = of_int m * 2 powi (- int n)" by (simp add: power_int_minus_divide)
  finally have x: "x = of_int m * 2 powi (- int n)" .
  have "round64 (of_int m * 2 powi (- int n)) = of_int m * 2 powi (- int n)"
    using assms(2,3) by (intro round64_representable) simp_all
  then show ?thesis using x by simp
qed

lemma round64_int: "\<bar>m\<bar> \<le> 2 ^ 53 \<Longrightarrow> round64 (of_int m) = of_int m"
  using round64_dyadic [of "of_int m" 0 m] by simp

lemma round64_nat: "n \<le> 2 ^ 53 \<Longrightarrow> round64 (of_nat n) = of_nat n"
  using round64_int [of "int n"] by simp

lemma below_one:
  assumes "round64 v = v" and "v < 1"
  shows "v \<le> 1 - 1 / 2 ^ 53"
proof (cases "v < 1 / 2")
  case True
  then show ?thesis by simp
next
  case False
  then have a: "2 ^ 52 \<le> \<bar>v\<bar> * 2 ^ 53" by simp
  have b: "\<bar>v\<bar> * 2 ^ 53 < 2 ^ 53" using assms(2) False by simp
  let ?n = "round_even (v * 2 ^ 53)"
  have v: "v = of_int ?n / 2 ^ 53"
    using round64_scaled [OF a b] assms(1) by simp
  then have "of_int ?n = v * 2 ^ 53" by simp
  also have "\<dots> < 2 ^ 53" using assms(2) by simp
  finally have "(of_int ?n :: real) < of_int (2 ^ 53)" by simp
  then have "?n < 2 ^ 53" by (simp only: of_int_less_iff)
  then have "?n \<le> 2 ^ 53 - 1" by simp
  then have "(of_int ?n :: real) \<le> of_int (2 ^ 53 - 1)" by (simp only: of_int_le_iff)
  then have "of_int ?n / 2 ^ 53 \<le> (2 ^ 53 - 1) / (2 ^ 53 :: real)"
    by (simp add: divide_right_mono)
  with v show ?thesis by (simp add: field_simps)
qed

lemma round64_scale_below:
  assumes wfix: "round64 w = w" and w1: "1 \<le> w"
  shows "round64 ((1 - 1 / 2 ^ 53) * w) < w"
proof -
  define k where "k = expo w"
  define q :: real where "q = 2 powi (k - 52)"
  define M where "M = round_even (w / q)"
  let ?x = "(1 - 1 / 2 ^ 53) * w"
  have wpos: "0 < w" and wnz: "w \<noteq> 0" using w1 by simp_all
  have "expo 1 \<le> expo w" using w1 by (intro expo_mono) simp_all
  moreover have "expo 1 = 0" by (rule expo_eqI) simp_all
  ultimately have k0: "0 \<le> k" by (simp add: k_def)
  have lo: "2 powi k \<le> w" and hi: "w < 2 powi (k + 1)"
    using expo_bounds [OF wnz] wpos by (simp_all add: k_def)
  have qpos: "0 < q" by (simp add: q_def)
  have qw: "quantum w = q"
    using k0 by (simp add: quantum_qexp qexp_def k_def q_def)
  have wM: "w = of_int M * q"
    using wfix unfolding round64_def qw M_def by simp
  have pk: "(2::real) powi k = 2 ^ 52 * q"
    unfolding q_def by (simp add: power_int_diff)
  have pk1: "(2::real) powi (k + 1) = 2 ^ 53 * q"
    unfolding q_def by (simp add: power_int_diff power_int_add)
  have "2 ^ 52 * q \<le> of_int M * q" using lo wM pk by simp
  then have "(2 ^ 52 :: real) \<le> of_int M" using qpos by simp
  then have "(of_int (2 ^ 52) :: real) \<le> of_int M" by simp
  then have Mlo: "2 ^ 52 \<le> M" by (simp only: of_int_le_iff)
  have "of_int M * q < 2 ^ 53 * q" using hi wM pk1 by simp
  then have Mr: "(of_int M :: real) < 2 ^ 53" using qpos by simp
  then have "(of_int M :: real) < of_int (2 ^ 53)" by simp
  then have Mhi: "M < 2 ^ 53" by (simp only: of_int_less_iff)
  have x: "?x = (of_int M - of_int M / 2 ^ 53) * q"
    by (subst wM) (simp add: algebra_simps)
  show ?thesis
  proof (cases "M = 2 ^ 52")
    case True
    have "?x = of_int (2 ^ 53 - 1) * 2 powi (k - 53)"
      unfolding x True q_def by (simp add: power_int_diff)
    moreover have "round64 (of_int (2 ^ 53 - 1) * 2 powi (k - 53)) = of_int (2 ^ 53 - 1) * 2 powi (k - 53)"
      using k0 by (intro round64_representable) simp_all
    ultimately have "round64 ?x = ?x" by simp
    moreover have "?x < w" using wpos by simp
    ultimately show ?thesis by simp
  next
    case False
    with Mlo have M1: "2 ^ 52 + 1 \<le> M" by simp
    then have "(of_int (2 ^ 52 + 1) :: real) \<le> of_int M" by (simp only: of_int_le_iff)
    then have M1r: "(2 ^ 52 + 1 :: real) \<le> of_int M" by simp
    have xq: "?x / q = of_int M - of_int M / 2 ^ 53"
      unfolding x using qpos by simp
    have xlo: "2 powi k \<le> \<bar>?x\<bar>"
    proof -
      have "2 ^ 52 \<le> ?x / q" unfolding xq using M1r Mr by simp
      then have "2 ^ 52 * q \<le> ?x" using qpos by (simp add: pos_le_divide_eq)
      then show ?thesis using pk by simp
    qed
    have xhi: "\<bar>?x\<bar> < 2 powi (k + 1)"
    proof -
      have "?x \<le> w" using wpos by simp
      moreover have "0 \<le> ?x" using wpos by simp
      ultimately show ?thesis using hi by simp
    qed
    have "qexp ?x = k - 52" using xlo xhi k0 by (intro qexp_normal) simp_all
    then have qx: "quantum ?x = q" by (simp add: quantum_qexp q_def)
    have "\<bar>?x / q - of_int (M - 1)\<bar> < 1 / 2"
      unfolding xq using M1r Mr by simp
    then have "round_even (?x / q) = M - 1" by (rule round_even_near)
    then have "round64 ?x = of_int (M - 1) * q"
      unfolding round64_def qx by simp
    also have "\<dots> < of_int M * q" using qpos by simp
    finally show ?thesis using wM by simp
  qed
qed

lemma round64_val [simp]: "round64 (val a) = val a"
  using val [of a] by auto

lemma val_lit: "val (lit x) = round64 x"
  by (rule lit.rep_eq)

lemma lit_val [simp]: "lit (val a) = a"
  by (simp add: val_inject [symmetric] val_lit)

lemma round_even_error: "\<bar>of_int (round_even z) - z\<bar> \<le> 1 / 2"
proof -
  have "of_int \<lfloor>z\<rfloor> \<le> z" and "z < of_int \<lfloor>z\<rfloor> + 1" by linarith+
  then show ?thesis by (auto simp: round_even_def Let_def)
qed

lemma round64_error: "\<bar>round64 s - s\<bar> \<le> quantum s / 2"
proof -
  have qz: "quantum s \<noteq> 0" using quantum_pos [of s] by linarith
  have "round64 s - s = (of_int (round_even (s / quantum s)) - s / quantum s) * quantum s"
    using qz by (simp add: round64_def algebra_simps)
  then have "\<bar>round64 s - s\<bar> = \<bar>of_int (round_even (s / quantum s)) - s / quantum s\<bar> * quantum s"
    by (simp add: abs_mult abs_of_pos [OF quantum_pos])
  also have "\<dots> \<le> 1 / 2 * quantum s"
    using round_even_error [of "s / quantum s"]
    by (intro mult_right_mono less_imp_le [OF quantum_pos])
  finally show ?thesis by simp
qed

lemma nat_below_next_power:
  assumes "1 \<le> n"
  shows "real n + 1 \<le> 2 powi (expo (real n) + 1)" and "0 \<le> expo (real n)"
proof -
  have nz: "real n \<noteq> 0" using assms by simp
  have "expo 1 \<le> expo (real n)" using assms by (intro expo_mono) simp_all
  moreover have "expo 1 = 0" by (rule expo_eqI) simp_all
  ultimately show k0: "0 \<le> expo (real n)" by simp
  have "real n < 2 powi (expo (real n) + 1)" using expo_bounds(2) [OF nz] by simp
  also have "(2::real) powi (expo (real n) + 1) = 2 ^ nat (expo (real n) + 1)"
    using k0 by (intro power_int_nonneg_exp) simp
  finally have "real n < real (2 ^ nat (expo (real n) + 1))" by simp
  then have "n < 2 ^ nat (expo (real n) + 1)" by (simp only: of_nat_less_iff)
  then have "n + 1 \<le> 2 ^ nat (expo (real n) + 1)" by simp
  then have "real (n + 1) \<le> real (2 ^ nat (expo (real n) + 1))" by (simp only: of_nat_le_iff)
  then have "real n + 1 \<le> 2 ^ nat (expo (real n) + 1)" by simp
  also have "\<dots> = 2 powi (expo (real n) + 1)"
    using k0 by (intro power_int_nonneg_exp [symmetric]) simp
  finally show "real n + 1 \<le> 2 powi (expo (real n) + 1)" .
qed

lemma quantum_near_nat:
  assumes "1 \<le> n" and "real n \<le> s" and "s < real n + 1"
  shows "quantum s = quantum (real n)"
proof -
  let ?k = "expo (real n)"
  have nz: "real n \<noteq> 0" using assms(1) by simp
  have "2 powi ?k \<le> \<bar>real n\<bar>" using nz by (rule expo_bounds)
  then have lo: "2 powi ?k \<le> \<bar>s\<bar>" using assms(2) by simp
  have "s < 2 powi (?k + 1)" using assms(3) nat_below_next_power(1) [OF assms(1)] by simp
  then have hi: "\<bar>s\<bar> < 2 powi (?k + 1)" using assms(2) by simp
  have "expo s = ?k" using lo hi by (rule expo_eqI)
  then show ?thesis by (simp add: quantum_def)
qed

lemma quantum_nat_le_half:
  assumes "1 \<le> n" and "n < 2 ^ 52"
  shows "quantum (real n) \<le> 1 / 2"
    and "\<exists>m. real n = of_int (2 * m) * quantum (real n)"
proof -
  let ?k = "expo (real n)"
  have nz: "real n \<noteq> 0" using assms(1) by simp
  have k0: "0 \<le> ?k" using assms(1) by (rule nat_below_next_power)
  have "2 powi ?k \<le> \<bar>real n\<bar>" using nz by (rule expo_bounds)
  also have "\<bar>real n\<bar> < real (2 ^ 52)" using assms(2) by (simp only: abs_of_nat of_nat_less_iff)
  also have "real (2 ^ 52) = 2 powi 52" by simp
  finally have "(2::real) powi ?k < 2 powi 52" .
  then have "?k < 52" by (simp only: two_powi_less_iff)
  then have k51: "?k - 52 \<le> - 1" by simp
  have q: "quantum (real n) = 2 powi (?k - 52)" using k0 by (simp add: quantum_def)
  have "(2::real) powi (?k - 52) \<le> 2 powi (- 1)" using k51 by (simp only: two_powi_le_iff)
  also have "(2::real) powi (- 1) = 1 / 2" by simp
  finally show "quantum (real n) \<le> 1 / 2" by (simp only: q)
  have "(2::real) powi (- 1) = of_int (2 ^ nat (- 1 - (?k - 52))) * 2 powi (?k - 52)"
    using k51 by (rule powi_diff_int)
  then have "(1::real) = 2 * (of_int (2 ^ nat (- 1 - (?k - 52))) * 2 powi (?k - 52))"
    by simp
  then have "real n = real n * (2 * (of_int (2 ^ nat (- 1 - (?k - 52))) * 2 powi (?k - 52)))"
    by simp
  also have "\<dots> = of_int (2 * (int n * 2 ^ nat (- 1 - (?k - 52)))) * 2 powi (?k - 52)"
    by simp
  finally have "real n = of_int (2 * (int n * 2 ^ nat (- 1 - (?k - 52)))) * quantum (real n)"
    by (simp only: q)
  then show "\<exists>m. real n = of_int (2 * m) * quantum (real n)" ..
qed

lemma round64_nat_tie:
  assumes "1 \<le> n" and "n < 2 ^ 52"
  shows "round64 (real n + quantum (real n) / 2) = real n"
proof -
  define q where "q = quantum (real n)"
  obtain m where m: "real n = of_int (2 * m) * q"
    using quantum_nat_le_half(2) [OF assms] unfolding q_def ..
  have qh: "q \<le> 1 / 2" unfolding q_def using assms by (rule quantum_nat_le_half)
  have qp: "0 < q" unfolding q_def by (rule quantum_pos)
  have "real n \<le> real n + q / 2" and "real n + q / 2 < real n + 1"
    using qh qp by linarith+
  with assms(1) have qq: "quantum (real n + q / 2) = q"
    unfolding q_def by (rule quantum_near_nat)
  have "(of_int (2 * m) * q + q / 2) / q = of_int (2 * m) + 1 / 2"
    using qp by (simp add: field_simps)
  then have d: "(real n + q / 2) / q = of_int (2 * m) + 1 / 2"
    by (simp only: m [symmetric])
  have f: "\<lfloor>of_int (2 * m) + 1 / 2 :: real\<rfloor> = 2 * m"
    by (rule floor_unique) simp_all
  have r: "round_even (of_int (2 * m) + 1 / 2) = 2 * m"
    unfolding round_even_def Let_def f by simp
  have "round64 (real n + q / 2) = of_int (2 * m) * q"
    by (simp only: round64_def qq d r)
  then have "round64 (real n + q / 2) = real n" by (simp only: m [symmetric])
  then show ?thesis by (simp only: q_def)
qed

lemma bounce_back_upper:
  assumes n: "n < 2 ^ 52" and x: "0 \<le> x" "x \<le> real n" and v: "round64 v = v" "v < 1"
    and out: "real n < round64 (x + v)"
  shows "0 \<le> round64 (round64 (x + v) - v)" and "round64 (round64 (x + v) - v) \<le> real n"
proof -
  have "round64 v \<le> round64 (x + v)" using x(1) by (intro round64_mono) simp
  then have "0 \<le> round64 (x + v) - v" using v(1) by simp
  then show "0 \<le> round64 (round64 (x + v) - v)" by (rule round64_nonneg)
  have rn: "round64 (real n) = real n" using n by (intro round64_nat) simp
  have s: "real n < x + v"
  proof (rule ccontr)
    assume "\<not> real n < x + v"
    then have "round64 (x + v) \<le> round64 (real n)" by (intro round64_mono) simp
    with out rn show False by simp
  qed
  show "round64 (round64 (x + v) - v) \<le> real n"
  proof (cases "n = 0")
    case True
    with x have "x = 0" by simp
    then show ?thesis using v(1) True by simp
  next
    case False
    then have n1: "1 \<le> n" by simp
    have "real n \<le> x + v" and "x + v < real n + 1" using s x(2) v(2) by linarith+
    with n1 have q: "quantum (x + v) = quantum (real n)"
      by (rule quantum_near_nat)
    have "round64 (x + v) - (x + v) \<le> quantum (real n) / 2"
      using round64_error [of "x + v"] q by linarith
    then have "round64 (x + v) - v \<le> real n + quantum (real n) / 2"
      using x(2) by simp
    then have "round64 (round64 (x + v) - v) \<le> round64 (real n + quantum (real n) / 2)"
      by (rule round64_mono)
    also have "\<dots> = real n" using n1 n by (rule round64_nat_tie)
    finally show ?thesis .
  qed
qed

lemma bounce_back_lower:
  assumes n: "n < 2 ^ 52" and x: "0 \<le> x" "x \<le> real n" and v: "round64 v = v" "- 1 \<le> v"
    and out: "round64 (x + v) < 0"
  shows "0 \<le> round64 (round64 (x + v) - v)" and "round64 (round64 (x + v) - v) \<le> real n"
proof -
  have "round64 v \<le> round64 (x + v)" using x(1) by (intro round64_mono) simp
  then have t0: "0 \<le> round64 (x + v) - v" using v(1) by simp
  then show "0 \<le> round64 (round64 (x + v) - v)" by (rule round64_nonneg)
  have rn: "round64 (real n) = real n" using n by (intro round64_nat) simp
  show "round64 (round64 (x + v) - v) \<le> real n"
  proof (cases "n = 0")
    case True
    with x have "x = 0" by simp
    then show ?thesis using v(1) True by simp
  next
    case False
    then have "1 \<le> real n" by simp
    then have "round64 (x + v) - v \<le> real n" using out v(2) by simp
    then have "round64 (round64 (x + v) - v) \<le> round64 (real n)" by (rule round64_mono)
    then show ?thesis using rn by simp
  qed
qed

subsection \<open>The operations on numbers\<close>

lemmas val_simps = lit.rep_eq fadd.rep_eq fsub.rep_eq fmul.rep_eq fdiv.rep_eq fsqrt.rep_eq
  less_eq_double.rep_eq less_double.rep_eq

lemma double_eq_iff: "a = b \<longleftrightarrow> val a = val b"
  by (simp add: val_inject)

lemma val_number: "val (number n) = round64 (real n)"
  by (simp add: number_def lit.rep_eq)

lemma round64_numeral [simp]: "(numeral k :: int) \<le> 2 ^ 53 \<Longrightarrow> round64 (numeral k) = numeral k"
  using round64_int [of "numeral k"] by simp

lemma round64_neg_numeral [simp]:
  "(numeral k :: int) \<le> 2 ^ 53 \<Longrightarrow> round64 (- numeral k) = - numeral k"
  using round64_int [of "- numeral k"] by simp

lemma round64_one [simp]: "round64 1 = 1"
  using round64_int [of 1] by simp

lemma round64_neg_one [simp]: "round64 (- 1) = - 1"
  using round64_int [of "- 1"] by simp

lemma round64_half [simp]: "round64 (1 / 2) = 1 / 2"
    using round64_dyadic [where x = "1 / 2" and n = 1 and m = 1] by simp

lemma val_negate: "val (fmul v (lit (- 1))) = - val v"
  by (simp add: val_simps round64_minus)

lemma fadd_zero: "fadd (lit 0) v = v"
  by (simp add: double_eq_iff val_simps)

text \<open>
  Two checks of the arithmetic: \<open>0.1 + 0.2\<close> is \<open>0.30000000000000004\<close> and not \<open>0.3\<close>; and a
  particle at \<open>x = 800\<close> whose \<open>vx\<close> is below half the spacing of the numbers around 800
  stays at 800 (and so is not turned round at the edge of a surface 800 wide).
\<close>

lemma check_tenth_plus_fifth:
  "fadd (lit 0.1) (lit 0.2) = lit 0.30000000000000004 \<and> fadd (lit 0.1) (lit 0.2) \<noteq> lit 0.3"
proof -
  have a: "round64 (1 / 10) = 3602879701896397 / 36028797018963968"
    using round64_near [where x = "1 / 10" and n = 56 and m = "7205759403792794"] by simp
  have b: "round64 (1 / 5) = 3602879701896397 / 18014398509481984"
    using round64_near [where x = "1 / 5" and n = 55 and m = "7205759403792794"] by simp
  have c: "round64 (3 / 10) = 5404319552844595 / 18014398509481984"
    using round64_near [where x = "3 / 10" and n = 54 and m = "5404319552844595"] by simp
  have d: "round64 (7500000000000001 / 25000000000000000) = 1351079888211149 / 4503599627370496"
    using round64_near [where x = "7500000000000001 / 25000000000000000" and n = 54 and m = "5404319552844596"] by simp
  have e: "round64 (10808639105689191 / 36028797018963968) = 1351079888211149 / 4503599627370496"
    using round64_scaled [where x = "10808639105689191 / 36028797018963968" and n = 54] by (simp add: round_even_def)
  show ?thesis
    by (simp add: double_eq_iff val_simps a b c d e)
qed

lemma check_absorbed_step:
  "update \<lparr>width = 800, height = 600, offsetWidth = 800, offsetHeight = 600\<rparr>
     \<lparr>px = lit 800, py = lit 300, vx = lit (1 / 2 ^ 54), vy = lit 0, psize = lit 2\<rparr>
   = \<lparr>px = lit 800, py = lit 300, vx = lit (1 / 2 ^ 54), vy = lit 0, psize = lit 2\<rparr>"
proof -
  have a: "round64 (1 / 18014398509481984) = 1 / 18014398509481984"
    using round64_dyadic [where x = "1 / 18014398509481984" and n = 106 and m = "4503599627370496"] by simp
  have b: "round64 (14411518807585587201 / 18014398509481984) = 800"
    using round64_near [where x = "14411518807585587201 / 18014398509481984" and n = 43 and m = "7036874417766400"] by simp
  show ?thesis
    by (simp add: update_def Let_def double_eq_iff val_simps val_number a b)
qed

subsection \<open>One update step\<close>

lemma px_update: "px (update c p) = fadd (px p) (vx p)"
  by (simp add: update_def Let_def)

lemma py_update: "py (update c p) = fadd (py p) (vy p)"
  by (simp add: update_def Let_def)

lemma vx_update:
  "vx (update c p) =
     (if fadd (px p) (vx p) < lit 0 \<or> number (width c) < fadd (px p) (vx p)
      then fmul (vx p) (lit (- 1)) else vx p)"
  by (simp add: update_def Let_def)

lemma vy_update:
  "vy (update c p) =
     (if fadd (py p) (vy p) < lit 0 \<or> number (height c) < fadd (py p) (vy p)
      then fmul (vy p) (lit (- 1)) else vy p)"
  by (simp add: update_def Let_def)

lemma psize_update: "psize (update c p) = psize p"
  by (simp add: update_def Let_def)

lemma round64_799_9: "round64 (7999 / 10) = 7035994808464179 / 8796093022208"
  using round64_near [where x = "7999 / 10" and n = 43 and m = "7035994808464179"] by simp

lemma round64_800_4: "round64 (4002 / 5) = 7040392854975283 / 8796093022208"
  using round64_near [where x = "4002 / 5" and n = 43 and m = "7040392854975283"] by simp

lemma round64_799_9_plus_half: "round64 (7040392854975283 / 8796093022208) = 7040392854975283 / 8796093022208"
  using round64_dyadic [where x = "7040392854975283 / 8796093022208" and n = 43 and m = "7040392854975283"] by simp

lemma round64_799_5: "round64 (1599 / 2) = 1599 / 2"
  using round64_dyadic [where x = "1599 / 2" and n = 43 and m = "7032476371255296"] by simp

text \<open>
  C1. An update step first adds the velocity to the position (\<open>+=\<close>: the sum of the two
  numbers, rounded as every sum of numbers is). Then the sign of \<open>vx\<close> is inverted
  (\<open>vx * -1\<close>, which is exactly \<open>-vx\<close>) when the new \<open>x\<close> is below 0 or above the width, and
  left alone otherwise; likewise \<open>vy\<close> for the new \<open>y\<close> and the height. The position is
  the sum in every case: it is never clamped. On a surface 800 wide, a particle at
  \<open>x = 799\<close> with \<open>vx = 0.5\<close> moves to 799.5 and keeps its velocity; from \<open>x = 799.9\<close> it
  moves to 800.4 and \<open>vx\<close> becomes \<open>-0.5\<close>.
\<close>

theorem C1_update_moves_then_inverts:
  "px (update c p) = fadd (px p) (vx p)
   \<and> val (px (update c p)) = round64 (val (px p) + val (vx p))
   \<and> py (update c p) = fadd (py p) (vy p)
   \<and> val (py (update c p)) = round64 (val (py p) + val (vy p))
   \<and> vx (update c p) =
       (if px (update c p) < lit 0 \<or> px (update c p) > number (width c)
        then fmul (vx p) (lit (- 1)) else vx p)
   \<and> vy (update c p) =
       (if py (update c p) < lit 0 \<or> py (update c p) > number (height c)
        then fmul (vy p) (lit (- 1)) else vy p)
   \<and> val (fmul (vx p) (lit (- 1))) = - val (vx p)
   \<and> val (fmul (vy p) (lit (- 1))) = - val (vy p)
   \<and> psize (update c p) = psize p
   \<and> update \<lparr>width = 800, height = 600, offsetWidth = 800, offsetHeight = 600\<rparr>
        \<lparr>px = lit 799, py = lit 300, vx = lit 0.5, vy = lit 0, psize = lit 2\<rparr>
       = \<lparr>px = lit 799.5, py = lit 300, vx = lit 0.5, vy = lit 0, psize = lit 2\<rparr>
   \<and> update \<lparr>width = 800, height = 600, offsetWidth = 800, offsetHeight = 600\<rparr>
        \<lparr>px = lit 799.9, py = lit 300, vx = lit 0.5, vy = lit 0, psize = lit 2\<rparr>
       = \<lparr>px = lit 800.4, py = lit 300, vx = lit (- 0.5), vy = lit 0, psize = lit 2\<rparr>"
proof -
  have a: "update \<lparr>width = 800, height = 600, offsetWidth = 800, offsetHeight = 600\<rparr>
        \<lparr>px = lit 799, py = lit 300, vx = lit 0.5, vy = lit 0, psize = lit 2\<rparr>
       = \<lparr>px = lit 799.5, py = lit 300, vx = lit 0.5, vy = lit 0, psize = lit 2\<rparr>"
    by (simp add: update_def Let_def double_eq_iff val_simps val_number round64_799_5)
  have b: "update \<lparr>width = 800, height = 600, offsetWidth = 800, offsetHeight = 600\<rparr>
        \<lparr>px = lit 799.9, py = lit 300, vx = lit 0.5, vy = lit 0, psize = lit 2\<rparr>
       = \<lparr>px = lit 800.4, py = lit 300, vx = lit (- 0.5), vy = lit 0, psize = lit 2\<rparr>"
    by (simp add: update_def Let_def double_eq_iff val_simps val_number round64_minus
        round64_799_9 round64_800_4 round64_799_9_plus_half)
  show ?thesis
    using a b
    by (simp add: px_update py_update vx_update vy_update psize_update val_negate fadd.rep_eq)
qed

subsection \<open>The connection pass visits each pair once\<close>

lemma drop_as_nth: "drop k xs = map ((!) xs) [k..<length xs]"
  by (simp add: list_eq_iff_nth_eq)

lemma concat_map_pairs:
  "concat (map (\<lambda>(i, j). g i j) (concat (map (\<lambda>i. map (Pair i) (js i)) is))) =
   concat (map (\<lambda>i. concat (map (g i) (js i))) is)"
  by (induction "is") (simp_all add: comp_def)

lemma connections_pairs:
  "connections ps = concat (map (\<lambda>(i, j). connect (ps ! i) (ps ! j)) (index_pairs (length ps)))"
  unfolding connections_def index_pairs_def concat_map_pairs
  by (simp add: drop_as_nth [of _ ps] comp_def)

lemma set_index_pairs: "set (index_pairs n) = {(i, j). i < j \<and> j < n}"
  unfolding index_pairs_def by fastforce

lemma distinct_concat_map:
  "distinct xs \<Longrightarrow> (\<And>x. x \<in> set xs \<Longrightarrow> distinct (f x)) \<Longrightarrow>
   (\<And>x y. x \<in> set xs \<Longrightarrow> y \<in> set xs \<Longrightarrow> x \<noteq> y \<Longrightarrow> set (f x) \<inter> set (f y) = {}) \<Longrightarrow>
   distinct (concat (map f xs))"
proof (induction xs)
  case Nil
  show ?case by simp
next
  case (Cons a xs)
  have "distinct (concat (map f xs))"
    using Cons.prems by (intro Cons.IH) auto
  moreover have "distinct (f a)"
    using Cons.prems(2) by simp
  moreover have "set (f a) \<inter> set (f y) = {}" if "y \<in> set xs" for y
    using Cons.prems(1,3) that by auto
  ultimately show ?case by auto
qed

lemma distinct_index_pairs: "distinct (index_pairs n)"
  unfolding index_pairs_def
  by (rule distinct_concat_map) (auto simp: distinct_map inj_on_def)

subsection \<open>The update-and-draw loop\<close>

lemma update_draw_loop_eq:
  "i \<le> length ps \<Longrightarrow>
   update_draw_loop c i ps out =
     (take i ps @ map (update c) (drop i ps), out @ map (\<lambda>p. draw (update c p)) (drop i ps))"
proof (induction c i ps out rule: update_draw_loop.induct)
  case (1 c i ps out)
  show ?case
  proof (cases "i < length ps")
    case True
    let ?p = "update c (ps ! i)"
    have ih: "update_draw_loop c (i + 1) (ps[i := ?p]) (out @ [draw ?p]) =
      (take (i + 1) (ps[i := ?p]) @ map (update c) (drop (i + 1) (ps[i := ?p])),
       (out @ [draw ?p]) @ map (\<lambda>p. draw (update c p)) (drop (i + 1) (ps[i := ?p])))"
      using "1.IH" [OF True refl refl] True by simp
    have d: "drop i ps = ps ! i # drop (i + 1) ps"
      using True by (simp add: Cons_nth_drop_Suc)
    have t: "take (i + 1) (ps[i := ?p]) = take i ps @ [?p]"
      using True by (simp add: take_Suc_conv_app_nth)
    show ?thesis
      using True ih d t by (subst update_draw_loop.simps) (simp add: Let_def)
  next
    case False
    with "1.prems" have "i = length ps" by simp
    then show ?thesis by (subst update_draw_loop.simps) simp
  qed
qed

lemma animate_frame_eq:
  "animate_frame c ps =
     (map (update c) ps,
      FillRect (RGBA 15 15 26 (lit 0.1)) (lit 0) (lit 0) (number (width c)) (number (height c))
        # map draw (map (update c) ps) @ connections (map (update c) ps))"
  by (simp add: animate_frame_def Let_def update_draw_loop_eq comp_def)

text \<open>
  C10. The interleaved loop of the code (update particle \<open>i\<close>, draw it, go on to
  \<open>i + 1\<close>) computes what the two passes of the specification compute: the same
  particles and the same painting, command for command. After the overlay the frame
  paints, for each particle in order, a filled circle in \<open>#7C3AED\<close> whose centre is the
  particle's position after its update (\<open>x + vx\<close>, \<open>y + vy\<close>) and whose radius is its
  size; then the connection pass runs on the updated particles, and a line between two
  of them joins their positions after the update.
\<close>

theorem C10_interleaved_loop_is_two_passes:
  "animate_frame c ps = two_pass_frame c ps
   \<and> update_draw_loop c 0 ps out = (advance_all c ps, out @ draw_all (advance_all c ps))
   \<and> fst (animate_frame c ps) = map (update c) ps
   \<and> snd (animate_frame c ps) =
       FillRect (RGBA 15 15 26 (lit 0.1)) (lit 0) (lit 0) (number (width c)) (number (height c))
         # map (\<lambda>p. FillCircle (Hex ''#7C3AED'') (fadd (px p) (vx p)) (fadd (py p) (vy p)) (psize p)) ps
         @ concat (map (\<lambda>(i, j). connect (update c (ps ! i)) (update c (ps ! j)))
             (index_pairs (length ps)))
   \<and> connect (update c p) (update c q) =
       (if distance (update c p) (update c q) < lit 150
        then [StrokeLine
                (RGBA 124 58 237 (fsub (lit 1) (fdiv (distance (update c p) (update c q)) (lit 150))))
                (lit 0.5) (fadd (px p) (vx p)) (fadd (py p) (vy p))
                (fadd (px q) (vx q)) (fadd (py q) (vy q))]
        else [])"
proof -
  have n: "map (\<lambda>(i, j). connect (map (update c) ps ! i) (map (update c) ps ! j))
             (index_pairs (length ps))
         = map (\<lambda>(i, j). connect (update c (ps ! i)) (update c (ps ! j)))
             (index_pairs (length ps))"
    by (rule map_cong) (auto simp: set_index_pairs)
  have conn: "connections (map (update c) ps) =
         concat (map (\<lambda>(i, j). connect (update c (ps ! i)) (update c (ps ! j)))
           (index_pairs (length ps)))"
    by (simp only: connections_pairs length_map n)
  have s: "snd (animate_frame c ps) =
       FillRect (RGBA 15 15 26 (lit 0.1)) (lit 0) (lit 0) (number (width c)) (number (height c))
         # map (\<lambda>p. FillCircle (Hex ''#7C3AED'') (fadd (px p) (vx p)) (fadd (py p) (vy p)) (psize p)) ps
         @ concat (map (\<lambda>(i, j). connect (update c (ps ! i)) (update c (ps ! j)))
             (index_pairs (length ps)))"
    by (simp add: animate_frame_eq comp_def draw_def px_update py_update psize_update conn)
  show ?thesis
    using s
    by (simp add: animate_frame_eq two_pass_frame_def Let_def update_draw_loop_eq
        advance_all_def draw_all_def comp_def connect_def px_update py_update)
qed

subsection \<open>The connection lines\<close>

lemma sqrt_5625: "sqrt 5625 = 75"
proof -
  have "sqrt (75\<^sup>2) = \<bar>75\<bar>" by (rule real_sqrt_abs)
  then show ?thesis by simp
qed

lemma sqrt_22500: "sqrt 22500 = 150"
proof -
  have "sqrt (150\<^sup>2) = \<bar>150\<bar>" by (rule real_sqrt_abs)
  then show ?thesis by simp
qed

lemma sqrt_just_below_22500:
  "150 - 1 / 2 ^ 46 < sqrt (6184752906239999 / 274877906944)"
  "sqrt (6184752906239999 / 274877906944) < 150"
proof -
  show "150 - 1 / 2 ^ 46 < sqrt (6184752906239999 / 274877906944)"
    by (rule real_less_rsqrt) (simp add: power2_eq_square)
  have "sqrt (6184752906239999 / 274877906944) < sqrt 22500"
    by (subst real_sqrt_less_iff) simp
  then show "sqrt (6184752906239999 / 274877906944) < 150"
    by (simp only: sqrt_22500)
qed

lemma round64_sqrt_just_below_22500:
  "round64 (sqrt (6184752906239999 / 274877906944)) = 150"
proof -
  let ?s = "sqrt (6184752906239999 / 274877906944)"
  have lo: "150 - 1 / 2 ^ 46 < ?s" and hi: "?s < 150"
    by (rule sqrt_just_below_22500)+
  have pos: "\<bar>?s\<bar> = ?s" using lo by simp
  have a: "2 ^ 52 \<le> \<bar>?s\<bar> * 2 ^ 45" unfolding pos using lo by simp
  have b: "\<bar>?s\<bar> * 2 ^ 45 < 2 ^ 53" unfolding pos using hi by simp
  have c: "\<bar>?s * 2 ^ 45 - of_int (150 * 2 ^ 45)\<bar> < 1 / 2" using lo hi by simp
  have "round64 ?s = of_int (150 * 2 ^ 45) / 2 ^ 45"
    using a b _ c by (rule round64_near) simp
  then show ?thesis by simp
qed

text \<open>
  C2, as stated, fails: the distance that decides is the one the code computes, each
  operation rounded. A particle at \<open>(0, 0)\<close> and one at \<open>(90, 120 - 2\<^sup>-\<^sup>4\<^sup>6)\<close> (a number: it is
  its own rounding) are at a Euclidean distance below 150, yet the computed distance is
  150 and no line is drawn.
\<close>

theorem C2_rounded_distance_hides_a_line:
  "val (lit (120 - 1 / 2 ^ 46)) = 120 - 1 / 2 ^ 46
   \<and> sqrt ((0 - 90)\<^sup>2 + (0 - (120 - 1 / 2 ^ 46))\<^sup>2) < 150
   \<and> connect \<lparr>px = lit 0, py = lit 0, vx = lit 0, vy = lit 0, psize = lit 1\<rparr>
        \<lparr>px = lit 90, py = lit (120 - 1 / 2 ^ 46), vx = lit 0, vy = lit 0, psize = lit 1\<rparr>
       = []"
proof -
  have ry: "round64 (8444249301319679 / 70368744177664) = 8444249301319679 / 70368744177664"
    using round64_dyadic [where x = "8444249301319679 / 70368744177664" and n = 46 and m = "8444249301319679"] by simp
  have rny: "round64 (- (8444249301319679 / 70368744177664)) = - (8444249301319679 / 70368744177664)"
    using round64_dyadic [where x = "- (8444249301319679 / 70368744177664)" and n = 46 and m = "- 8444249301319679"] by simp
  have dy2: "round64 (71305346262837886945690952663041 / 4951760157141521099596496896) = 3958241859993599 / 274877906944"
    using round64_near [where x = "71305346262837886945690952663041 / 4951760157141521099596496896" and n = 39 and m = "7916483719987198"] by simp
  have rs: "round64 (6184752906239999 / 274877906944) = 6184752906239999 / 274877906944"
    using round64_dyadic [where x = "6184752906239999 / 274877906944" and n = 38 and m = "6184752906239999"] by simp
  let ?p = "\<lparr>px = lit 0, py = lit 0, vx = lit 0, vy = lit 0, psize = lit 1\<rparr>"
  let ?q = "\<lparr>px = lit 90, py = lit (120 - 1 / 2 ^ 46), vx = lit 0, vy = lit 0, psize = lit 1\<rparr>"
  let ?X = "fadd (fmul (fsub (lit 0) (lit 90)) (fsub (lit 0) (lit 90)))
              (fmul (fsub (lit 0) (lit (120 - 1 / 2 ^ 46))) (fsub (lit 0) (lit (120 - 1 / 2 ^ 46))))"
  have v: "val (lit (120 - 1 / 2 ^ 46)) = 120 - 1 / 2 ^ 46"
    by (simp add: val_simps ry)
  have X: "val ?X = 6184752906239999 / 274877906944"
    by (simp add: val_simps ry rny dy2 rs)
  have d: "distance ?p ?q = fsqrt ?X"
    by (simp add: distance_def Let_def)
  have "val (distance ?p ?q) = round64 (sqrt (val ?X))"
    by (simp only: d fsqrt.rep_eq)
  also have "\<dots> = 150"
    by (simp only: X round64_sqrt_just_below_22500)
  finally have "val (distance ?p ?q) = 150" .
  then have c: "connect ?p ?q = []"
    by (simp add: connect_def val_simps)
  have "sqrt ((0 - 90)\<^sup>2 + (0 - (120 - 1 / 2 ^ 46))\<^sup>2) < sqrt 22500"
    by (subst real_sqrt_less_iff) (simp add: power2_eq_square)
  then have t: "sqrt ((0 - 90)\<^sup>2 + (0 - (120 - 1 / 2 ^ 46))\<^sup>2) < 150"
    by (simp only: sqrt_22500)
  show ?thesis using v t c by blast
qed

text \<open>
  C2, amended. The connection pass runs the pair body once for each pair of indices
  \<open>i < j\<close>, and for no other pair: the list of the pairs it visits has no repetition and
  holds exactly those pairs. The body computes the distance \<open>d\<close> of the pair as
  \<open>Math.sqrt(dx * dx + dy * dy)\<close> with every operation rounded; it draws one line, of
  opacity \<open>1 - d / 150\<close> (rounded likewise), when that \<open>d\<close> is below 150, and nothing
  otherwise. Two particles 75 apart get a line of opacity 0.5; two particles 150 apart
  get none.
\<close>

theorem C2_connection_lines:
  "connections ps =
     concat (map (\<lambda>(i, j). connect (ps ! i) (ps ! j)) (index_pairs (length ps)))
   \<and> distinct (index_pairs (length ps))
   \<and> set (index_pairs (length ps)) = {(i, j). i < j \<and> j < length ps}
   \<and> distance p1 p2 =
       fsqrt (fadd (fmul (fsub (px p1) (px p2)) (fsub (px p1) (px p2)))
                   (fmul (fsub (py p1) (py p2)) (fsub (py p1) (py p2))))
   \<and> val (distance p1 p2) =
       round64 (sqrt (round64
         (round64 (round64 (val (px p1) - val (px p2)) * round64 (val (px p1) - val (px p2)))
          + round64 (round64 (val (py p1) - val (py p2)) * round64 (val (py p1) - val (py p2))))))
   \<and> connect p1 p2 =
       (if distance p1 p2 < lit 150
        then [StrokeLine (RGBA 124 58 237 (fsub (lit 1) (fdiv (distance p1 p2) (lit 150))))
                (lit 0.5) (px p1) (py p1) (px p2) (py p2)]
        else [])
   \<and> val (fsub (lit 1) (fdiv (distance p1 p2) (lit 150)))
       = round64 (1 - round64 (val (distance p1 p2) / 150))
   \<and> connections [\<lparr>px = lit 100, py = lit 100, vx = lit 0, vy = lit 0, psize = lit 1\<rparr>,
                   \<lparr>px = lit 145, py = lit 160, vx = lit 0, vy = lit 0, psize = lit 1\<rparr>]
       = [StrokeLine (RGBA 124 58 237 (lit 0.5)) (lit 0.5) (lit 100) (lit 100) (lit 145) (lit 160)]
   \<and> connections [\<lparr>px = lit 0, py = lit 0, vx = lit 0, vy = lit 0, psize = lit 1\<rparr>,
                   \<lparr>px = lit 150, py = lit 0, vx = lit 0, vy = lit 0, psize = lit 1\<rparr>]
       = []"
proof -
  have a: "connections [\<lparr>px = lit 100, py = lit 100, vx = lit 0, vy = lit 0, psize = lit 1\<rparr>,
                   \<lparr>px = lit 145, py = lit 160, vx = lit 0, vy = lit 0, psize = lit 1\<rparr>]
       = [StrokeLine (RGBA 124 58 237 (lit 0.5)) (lit 0.5) (lit 100) (lit 100) (lit 145) (lit 160)]"
    by (simp add: connections_def connect_def distance_def Let_def upt_rec double_eq_iff
        val_simps sqrt_5625 round64_minus)
  have b: "connections [\<lparr>px = lit 0, py = lit 0, vx = lit 0, vy = lit 0, psize = lit 1\<rparr>,
                   \<lparr>px = lit 150, py = lit 0, vx = lit 0, vy = lit 0, psize = lit 1\<rparr>] = []"
    by (simp add: connections_def connect_def distance_def Let_def upt_rec double_eq_iff
        val_simps sqrt_22500 round64_minus)
  have d: "distance p1 p2 =
       fsqrt (fadd (fmul (fsub (px p1) (px p2)) (fsub (px p1) (px p2)))
                   (fmul (fsub (py p1) (py p2)) (fsub (py p1) (py p2))))"
    by (simp add: distance_def Let_def)
  have v: "val (distance p1 p2) =
       round64 (sqrt (round64
         (round64 (round64 (val (px p1) - val (px p2)) * round64 (val (px p1) - val (px p2)))
          + round64 (round64 (val (py p1) - val (py p2)) * round64 (val (py p1) - val (py p2))))))"
    by (simp only: d val_simps)
  have o: "val (fsub (lit 1) (fdiv (distance p1 p2) (lit 150)))
       = round64 (1 - round64 (val (distance p1 p2) / 150))"
    by (simp add: val_simps)
  show ?thesis
    using a b d v o connections_pairs [of ps] distinct_index_pairs [of "length ps"]
      set_index_pairs [of "length ps"]
    by (simp add: connect_def)
qed

subsection \<open>Soft bounce: what an update step guarantees\<close>

lemma val_zero [simp]: "val (lit 0) = 0"
  by (simp add: lit.rep_eq)

lemma fadd_zero_right: "fadd v (lit 0) = v"
  by (simp add: double_eq_iff val_simps)

lemma outside_iff:
  "(a < lit 0 \<or> w < a) = (\<not> (lit 0 \<le> a \<and> a \<le> w))"
  by auto

lemma negate_eq_self_iff: "fmul v (lit (- 1)) = v \<longleftrightarrow> v = lit 0"
proof -
  have "fmul v (lit (- 1)) = v \<longleftrightarrow> - val v = val v"
    by (simp only: double_eq_iff val_negate)
  also have "\<dots> \<longleftrightarrow> val v = 0" by auto
  also have "\<dots> \<longleftrightarrow> v = lit 0" by (simp add: double_eq_iff)
  finally show ?thesis .
qed

lemma fadd_lower: "lit 0 \<le> a \<Longrightarrow> v \<le> fadd a v"
proof -
  assume "lit 0 \<le> a"
  then have "0 \<le> val a" by (simp add: val_simps)
  then have "round64 (val v) \<le> round64 (val a + val v)" by (intro round64_mono) simp
  then show ?thesis by (simp add: val_simps)
qed

lemma fadd_upper: "a \<le> w \<Longrightarrow> fadd a v \<le> fadd w v"
proof -
  assume "a \<le> w"
  then have "val a \<le> val w" by (simp add: val_simps)
  then have "round64 (val a + val v) \<le> round64 (val w + val v)" by (intro round64_mono) simp
  then show ?thesis by (simp add: val_simps)
qed

lemma fadd_negative: "lit 0 \<le> a \<Longrightarrow> fadd a v < lit 0 \<Longrightarrow> v < lit 0"
proof (rule ccontr)
  assume a: "lit 0 \<le> a" and n: "fadd a v < lit 0" and "\<not> v < lit 0"
  then have "0 \<le> val a + val v" by (simp add: val_simps)
  then have "0 \<le> round64 (val a + val v)" by (rule round64_nonneg)
  with n show False by (simp add: val_simps)
qed

lemma fadd_beyond: "a \<le> w \<Longrightarrow> w < fadd a v \<Longrightarrow> lit 0 < v"
proof (rule ccontr)
  assume a: "a \<le> w" and n: "w < fadd a v" and "\<not> lit 0 < v"
  then have "val a + val v \<le> val a" by (simp add: val_simps)
  then have "round64 (val a + val v) \<le> round64 (val a)" by (rule round64_mono)
  with a n show False by (simp add: val_simps)
qed

lemma x_inversion_step:
  "(vx p \<noteq> lit 0 \<and> vx (update c p) = fmul (vx p) (lit (- 1)))
     = (vx p \<noteq> lit 0 \<and> \<not> x_inside c (update c p))"
  using negate_eq_self_iff [of "vx p"]
  by (auto simp: vx_update px_update x_inside_def outside_iff)

lemma y_inversion_step:
  "(vy p \<noteq> lit 0 \<and> vy (update c p) = fmul (vy p) (lit (- 1)))
     = (vy p \<noteq> lit 0 \<and> \<not> y_inside c (update c p))"
  using negate_eq_self_iff [of "vy p"]
  by (auto simp: vy_update py_update y_inside_def outside_iff)

lemma x_crossing_moves: "x_inside c p \<Longrightarrow> \<not> x_inside c (update c p) \<Longrightarrow> vx p \<noteq> lit 0"
  by (auto simp: x_inside_def px_update fadd_zero_right)

lemma y_crossing_moves: "y_inside c p \<Longrightarrow> \<not> y_inside c (update c p) \<Longrightarrow> vy p \<noteq> lit 0"
  by (auto simp: y_inside_def py_update fadd_zero_right)

lemma x_inversions_account: "x_inversions cs p = x_crossings cs p + x_stranded cs p"
proof (induction cs arbitrary: p)
  case Nil
  show ?case by simp
next
  case (Cons c cs)
  show ?case
    using x_crossing_moves [of c p]
    by (auto simp: Cons.IH x_inversion_step)
qed

lemma y_inversions_account: "y_inversions cs p = y_crossings cs p + y_stranded cs p"
proof (induction cs arbitrary: p)
  case Nil
  show ?case by simp
next
  case (Cons c cs)
  show ?case
    using y_crossing_moves [of c p]
    by (auto simp: Cons.IH y_inversion_step)
qed

lemma val_number_exact: "n < 2 ^ 52 \<Longrightarrow> val (number n) = real n"
  unfolding val_number by (rule round64_nat) simp

lemma val_quarter: "val (lit (1 / 4)) = 1 / 4" "val (lit (- (1 / 4))) = - (1 / 4)"
proof -
  have e: "round64 (1 / 4) = 1 / 4"
    using round64_dyadic [where x = "1 / 4" and n = 2 and m = 1] by simp
  show "val (lit (1 / 4)) = 1 / 4" using e by (simp add: val_simps)
  show "val (lit (- (1 / 4))) = - (1 / 4)" using e by (simp add: val_simps round64_minus)
qed

lemma x_slow_update: "x_slow p \<Longrightarrow> x_slow (update c p)"
  by (auto simp: x_slow_def vx_update less_eq_double.rep_eq val_negate val_quarter)

lemma y_slow_update: "y_slow p \<Longrightarrow> y_slow (update c p)"
  by (auto simp: y_slow_def vy_update less_eq_double.rep_eq val_negate val_quarter)

lemma x_inside_px: "x_inside c (p\<lparr>px := a\<rparr>) = (lit 0 \<le> a \<and> a \<le> number (width c))"
  by (simp add: x_inside_def)

lemma y_inside_py: "y_inside c (p\<lparr>py := a\<rparr>) = (lit 0 \<le> a \<and> a \<le> number (height c))"
  by (simp add: y_inside_def)

lemma x_inside_update: "x_inside c (update c p) = x_inside c (p\<lparr>px := fadd (px p) (vx p)\<rparr>)"
  by (simp add: x_inside_def px_update)

lemma y_inside_update: "y_inside c (update c p) = y_inside c (p\<lparr>py := fadd (py p) (vy p)\<rparr>)"
  by (simp add: y_inside_def py_update)

lemma bounce_back:
  assumes n: "n < 2 ^ 52" and a: "lit 0 \<le> a" "a \<le> number n"
    and v: "lit (- 0.25) \<le> v" "v \<le> lit 0.25"
    and out: "fadd a v < lit 0 \<or> number n < fadd a v"
  shows "lit 0 \<le> fadd (fadd a v) (fmul v (lit (- 1)))"
    and "fadd (fadd a v) (fmul v (lit (- 1))) \<le> number n"
proof -
  have w: "val (number n) = real n" using n by (rule val_number_exact)
  have x: "0 \<le> val a" "val a \<le> real n" using a by (simp_all add: val_simps w)
  have vv: "round64 (val v) = val v" "val v < 1" "- 1 \<le> val v"
    using v by (simp_all add: less_eq_double.rep_eq val_quarter)
  have r: "val (fadd (fadd a v) (fmul v (lit (- 1)))) = round64 (round64 (val a + val v) - val v)"
    by (simp add: fadd.rep_eq val_negate)
  from out have "0 \<le> round64 (round64 (val a + val v) - val v)
      \<and> round64 (round64 (val a + val v) - val v) \<le> real n"
  proof
    assume "fadd a v < lit 0"
    then have "round64 (val a + val v) < 0" by (simp add: val_simps)
    with n x vv(1,3) show ?thesis
      using bounce_back_lower [of n "val a" "val v"] by simp
  next
    assume "number n < fadd a v"
    then have "real n < round64 (val a + val v)" by (simp add: val_simps w)
    with n x vv(1,2) show ?thesis
      using bounce_back_upper [of n "val a" "val v"] by simp
  qed
  then show "lit 0 \<le> fadd (fadd a v) (fmul v (lit (- 1)))"
    and "fadd (fadd a v) (fmul v (lit (- 1))) \<le> number n"
    by (simp_all add: less_eq_double.rep_eq r w)
qed

lemma x_settled_update:
  assumes "width c < 2 ^ 52" and "x_slow p" and "x_settled c p"
  shows "x_settled c (update c p)"
proof (cases "x_inside c p")
  case True
  show ?thesis
  proof (cases "x_inside c (update c p)")
    case True
    then show ?thesis by (simp add: x_settled_def)
  next
    case False
    then have out: "fadd (px p) (vx p) < lit 0 \<or> number (width c) < fadd (px p) (vx p)"
      by (auto simp: x_inside_def px_update)
    then have v: "vx (update c p) = fmul (vx p) (lit (- 1))"
      by (simp add: vx_update)
    have "x_inside c ((update c p)\<lparr>px := fadd (px (update c p)) (vx (update c p))\<rparr>)"
      unfolding x_inside_px px_update v
      using bounce_back [OF assms(1) _ _ _ _ out] True assms(2)
      by (simp add: x_inside_def x_slow_def)
    then show ?thesis by (simp add: x_settled_def)
  qed
next
  case False
  with assms(3) have "x_inside c (update c p)"
    by (simp add: x_settled_def x_inside_update)
  then show ?thesis by (simp add: x_settled_def)
qed

lemma y_settled_update:
  assumes "height c < 2 ^ 52" and "y_slow p" and "y_settled c p"
  shows "y_settled c (update c p)"
proof (cases "y_inside c p")
  case True
  show ?thesis
  proof (cases "y_inside c (update c p)")
    case True
    then show ?thesis by (simp add: y_settled_def)
  next
    case False
    then have out: "fadd (py p) (vy p) < lit 0 \<or> number (height c) < fadd (py p) (vy p)"
      by (auto simp: y_inside_def py_update)
    then have v: "vy (update c p) = fmul (vy p) (lit (- 1))"
      by (simp add: vy_update)
    have "y_inside c ((update c p)\<lparr>py := fadd (py (update c p)) (vy (update c p))\<rparr>)"
      unfolding y_inside_py py_update v
      using bounce_back [OF assms(1) _ _ _ _ out] True assms(2)
      by (simp add: y_inside_def y_slow_def)
    then show ?thesis by (simp add: y_settled_def)
  qed
next
  case False
  with assms(3) have "y_inside c (update c p)"
    by (simp add: y_settled_def y_inside_update)
  then show ?thesis by (simp add: y_settled_def)
qed

lemma x_settled_funpow:
  "width c < 2 ^ 52 \<Longrightarrow> x_slow p \<Longrightarrow> x_settled c p \<Longrightarrow>
   x_slow ((update c ^^ n) p) \<and> x_settled c ((update c ^^ n) p)"
  by (induction n) (simp_all add: x_slow_update x_settled_update)

lemma y_settled_funpow:
  "height c < 2 ^ 52 \<Longrightarrow> y_slow p \<Longrightarrow> y_settled c p \<Longrightarrow>
   y_slow ((update c ^^ n) p) \<and> y_settled c ((update c ^^ n) p)"
  by (induction n) (simp_all add: y_slow_update y_settled_update)

lemma x_never_stranded:
  "width c < 2 ^ 52 \<Longrightarrow> x_slow p \<Longrightarrow> x_settled c p \<Longrightarrow> x_stranded (replicate n c) p = 0"
proof (induction n arbitrary: p)
  case 0
  show ?case by simp
next
  case (Suc n)
  have "x_inside c p \<or> x_inside c (update c p)"
    using Suc.prems(3) by (simp add: x_settled_def x_inside_update)
  moreover have "x_stranded (replicate n c) (update c p) = 0"
    using Suc.prems by (intro Suc.IH x_slow_update x_settled_update)
  ultimately show ?case by auto
qed

lemma y_never_stranded:
  "height c < 2 ^ 52 \<Longrightarrow> y_slow p \<Longrightarrow> y_settled c p \<Longrightarrow> y_stranded (replicate n c) p = 0"
proof (induction n arbitrary: p)
  case 0
  show ?case by simp
next
  case (Suc n)
  have "y_inside c p \<or> y_inside c (update c p)"
    using Suc.prems(3) by (simp add: y_settled_def y_inside_update)
  moreover have "y_stranded (replicate n c) (update c p) = 0"
    using Suc.prems by (intro Suc.IH y_slow_update y_settled_update)
  ultimately show ?case by auto
qed

text \<open>
  C3, as stated, fails. A particle inside an 800 by 600 surface, at \<open>x = 799.9\<close> with
  \<open>vx = 0.2\<close>, is beyond the right edge after one update step.
\<close>

theorem C3_in_bounds_not_preserved:
  "x_inside \<lparr>width = 800, height = 600, offsetWidth = 800, offsetHeight = 600\<rparr>
     \<lparr>px = lit 799.9, py = lit 300, vx = lit 0.2, vy = lit 0, psize = lit 2\<rparr>
   \<and> y_inside \<lparr>width = 800, height = 600, offsetWidth = 800, offsetHeight = 600\<rparr>
     \<lparr>px = lit 799.9, py = lit 300, vx = lit 0.2, vy = lit 0, psize = lit 2\<rparr>
   \<and> \<not> x_inside \<lparr>width = 800, height = 600, offsetWidth = 800, offsetHeight = 600\<rparr>
     (update \<lparr>width = 800, height = 600, offsetWidth = 800, offsetHeight = 600\<rparr>
       \<lparr>px = lit 799.9, py = lit 300, vx = lit 0.2, vy = lit 0, psize = lit 2\<rparr>)"
proof -
  have r_a: "round64 (7999 / 10) = 7035994808464179 / 8796093022208"
    using round64_near [where x = "7999 / 10" and n = 43 and m = "7035994808464179"] by simp
  have r_b: "round64 (1 / 5) = 3602879701896397 / 18014398509481984"
    using round64_near [where x = "1 / 5" and n = 55 and m = "7205759403792794"] by simp
  have r_s: "round64 (14413320247436534989 / 18014398509481984) = 7037754027068621 / 8796093022208"
    using round64_near [where x = "14413320247436534989 / 18014398509481984" and n = 43 and m = "7037754027068621"] by simp
  show ?thesis
    by (simp add: x_inside_def y_inside_def update_def Let_def val_simps val_number r_a r_b r_s)
qed

text \<open>
  C3, amended. Being inside the bounds is not preserved by an update step. From a
  position inside them, a step leaves each coordinate inside its range or at most one
  step of its velocity outside it: the new \<open>x\<close> is at least \<open>vx\<close> and at most
  \<open>width + vx\<close> (the rounded sum), it is below 0 only if \<open>vx\<close> is negative and above the
  width only if \<open>vx\<close> is positive. Whenever the new coordinate is outside, the same step
  has inverted the velocity component, which therefore points back to the surface.
  And while the bounds stay unchanged (and below \<open>2\<^sup>5\<^sup>2\<close>), a particle that starts inside
  them with a velocity component in the constructor's range is never outside after two
  consecutive steps: a coordinate that is outside after a step was inside before it and
  is inside again after the next. Likewise for \<open>y\<close>.
\<close>

theorem C3_one_step_overshoot:
  "(x_inside c p \<longrightarrow>
      vx p \<le> px (update c p) \<and> px (update c p) \<le> fadd (number (width c)) (vx p)
      \<and> (px (update c p) < lit 0 \<longrightarrow> vx p < lit 0)
      \<and> (number (width c) < px (update c p) \<longrightarrow> lit 0 < vx p))
   \<and> (y_inside c p \<longrightarrow>
      vy p \<le> py (update c p) \<and> py (update c p) \<le> fadd (number (height c)) (vy p)
      \<and> (py (update c p) < lit 0 \<longrightarrow> vy p < lit 0)
      \<and> (number (height c) < py (update c p) \<longrightarrow> lit 0 < vy p))
   \<and> (\<not> x_inside c (update c p) \<longrightarrow> vx (update c p) = fmul (vx p) (lit (- 1)))
   \<and> (\<not> y_inside c (update c p) \<longrightarrow> vy (update c p) = fmul (vy p) (lit (- 1)))
   \<and> val (fmul (vx p) (lit (- 1))) = - val (vx p)
   \<and> val (fmul (vy p) (lit (- 1))) = - val (vy p)
   \<and> (width c < 2 ^ 52 \<and> x_inside c p \<and> x_slow p
        \<and> \<not> x_inside c ((update c ^^ Suc n) p) \<longrightarrow>
      x_inside c ((update c ^^ n) p) \<and> x_inside c ((update c ^^ Suc (Suc n)) p))
   \<and> (height c < 2 ^ 52 \<and> y_inside c p \<and> y_slow p
        \<and> \<not> y_inside c ((update c ^^ Suc n) p) \<longrightarrow>
      y_inside c ((update c ^^ n) p) \<and> y_inside c ((update c ^^ Suc (Suc n)) p))"
proof -
  have x: "vx p \<le> px (update c p) \<and> px (update c p) \<le> fadd (number (width c)) (vx p)
      \<and> (px (update c p) < lit 0 \<longrightarrow> vx p < lit 0)
      \<and> (number (width c) < px (update c p) \<longrightarrow> lit 0 < vx p)" if "x_inside c p"
    using that fadd_lower [of "px p" "vx p"] fadd_upper [of "px p" "number (width c)" "vx p"]
      fadd_negative [of "px p" "vx p"] fadd_beyond [of "px p" "number (width c)" "vx p"]
    by (simp add: x_inside_def px_update)
  have y: "vy p \<le> py (update c p) \<and> py (update c p) \<le> fadd (number (height c)) (vy p)
      \<and> (py (update c p) < lit 0 \<longrightarrow> vy p < lit 0)
      \<and> (number (height c) < py (update c p) \<longrightarrow> lit 0 < vy p)" if "y_inside c p"
    using that fadd_lower [of "py p" "vy p"] fadd_upper [of "py p" "number (height c)" "vy p"]
      fadd_negative [of "py p" "vy p"] fadd_beyond [of "py p" "number (height c)" "vy p"]
    by (simp add: y_inside_def py_update)
  have ix: "vx (update c p) = fmul (vx p) (lit (- 1))" if "\<not> x_inside c (update c p)"
    using that by (auto simp: vx_update px_update x_inside_def)
  have iy: "vy (update c p) = fmul (vy p) (lit (- 1))" if "\<not> y_inside c (update c p)"
    using that by (auto simp: vy_update py_update y_inside_def)
  have mx: "x_inside c ((update c ^^ n) p) \<and> x_inside c ((update c ^^ Suc (Suc n)) p)"
    if "width c < 2 ^ 52" "x_inside c p" "x_slow p" "\<not> x_inside c ((update c ^^ Suc n) p)"
  proof -
    have s: "x_settled c p" using that(2) by (simp add: x_settled_def)
    have "x_settled c ((update c ^^ n) p)" and "x_settled c ((update c ^^ Suc n) p)"
      using x_settled_funpow [OF that(1,3) s, of n] x_settled_funpow [OF that(1,3) s, of "Suc n"]
      by simp_all
    then show ?thesis
      using that(4) by (simp add: x_settled_def x_inside_update)
  qed
  have my: "y_inside c ((update c ^^ n) p) \<and> y_inside c ((update c ^^ Suc (Suc n)) p)"
    if "height c < 2 ^ 52" "y_inside c p" "y_slow p" "\<not> y_inside c ((update c ^^ Suc n) p)"
  proof -
    have s: "y_settled c p" using that(2) by (simp add: y_settled_def)
    have "y_settled c ((update c ^^ n) p)" and "y_settled c ((update c ^^ Suc n) p)"
      using y_settled_funpow [OF that(1,3) s, of n] y_settled_funpow [OF that(1,3) s, of "Suc n"]
      by simp_all
    then show ?thesis
      using that(4) by (simp add: y_settled_def y_inside_update)
  qed
  show ?thesis
    using x y ix iy mx my val_negate [of "vx p"] val_negate [of "vy p"] by blast
qed

theorem C3_one_step_overshoot_witness:
  "x_inside \<lparr>width = 800, height = 600, offsetWidth = 800, offsetHeight = 600\<rparr>
     \<lparr>px = lit 799.9, py = lit 300, vx = lit 0.2, vy = lit 0, psize = lit 2\<rparr>
   \<and> y_inside \<lparr>width = 800, height = 600, offsetWidth = 800, offsetHeight = 600\<rparr>
     \<lparr>px = lit 799.9, py = lit 300, vx = lit 0.2, vy = lit 0, psize = lit 2\<rparr>
   \<and> x_slow \<lparr>px = lit 799.9, py = lit 300, vx = lit 0.2, vy = lit 0, psize = lit 2\<rparr>
   \<and> width \<lparr>width = 800, height = 600, offsetWidth = 800, offsetHeight = 600\<rparr> < 2 ^ 52
   \<and> \<not> x_inside \<lparr>width = 800, height = 600, offsetWidth = 800, offsetHeight = 600\<rparr>
     ((update \<lparr>width = 800, height = 600, offsetWidth = 800, offsetHeight = 600\<rparr> ^^ Suc 0)
       \<lparr>px = lit 799.9, py = lit 300, vx = lit 0.2, vy = lit 0, psize = lit 2\<rparr>)
   \<and> x_inside \<lparr>width = 800, height = 600, offsetWidth = 800, offsetHeight = 600\<rparr>
     ((update \<lparr>width = 800, height = 600, offsetWidth = 800, offsetHeight = 600\<rparr> ^^ Suc (Suc 0))
       \<lparr>px = lit 799.9, py = lit 300, vx = lit 0.2, vy = lit 0, psize = lit 2\<rparr>)
   \<and> number (width \<lparr>width = 800, height = 600, offsetWidth = 800, offsetHeight = 600\<rparr>)
       < px (update \<lparr>width = 800, height = 600, offsetWidth = 800, offsetHeight = 600\<rparr>
           \<lparr>px = lit 799.9, py = lit 300, vx = lit 0.2, vy = lit 0, psize = lit 2\<rparr>)
   \<and> px (update \<lparr>width = 800, height = 600, offsetWidth = 800, offsetHeight = 600\<rparr>
           \<lparr>px = lit 799.9, py = lit 300, vx = lit 0.2, vy = lit 0, psize = lit 2\<rparr>)
       \<le> fadd (number (width \<lparr>width = 800, height = 600, offsetWidth = 800, offsetHeight = 600\<rparr>))
           (vx \<lparr>px = lit 799.9, py = lit 300, vx = lit 0.2, vy = lit 0, psize = lit 2\<rparr>)
   \<and> vx (update \<lparr>width = 800, height = 600, offsetWidth = 800, offsetHeight = 600\<rparr>
           \<lparr>px = lit 799.9, py = lit 300, vx = lit 0.2, vy = lit 0, psize = lit 2\<rparr>)
       = fmul (vx \<lparr>px = lit 799.9, py = lit 300, vx = lit 0.2, vy = lit 0, psize = lit 2\<rparr>)
           (lit (- 1))"
proof -
  let ?c = "\<lparr>width = 800, height = 600, offsetWidth = 800, offsetHeight = 600\<rparr>"
  let ?p = "\<lparr>px = lit 799.9, py = lit 300, vx = lit 0.2, vy = lit 0, psize = lit 2\<rparr>"
  have r_a: "round64 (7999 / 10) = 7035994808464179 / 8796093022208"
    using round64_near [where x = "7999 / 10" and n = 43 and m = "7035994808464179"] by simp
  have r_b: "round64 (1 / 5) = 3602879701896397 / 18014398509481984"
    using round64_near [where x = "1 / 5" and n = 55 and m = "7205759403792794"] by simp
  have r_s: "round64 (14413320247436534989 / 18014398509481984) = 7037754027068621 / 8796093022208"
    using round64_near [where x = "14413320247436534989 / 18014398509481984" and n = 43 and m = "7037754027068621"] by simp
  have h1: "x_inside ?c ?p"
    by (simp add: x_inside_def val_simps val_number r_a)
  have h2: "y_inside ?c ?p"
    by (simp add: y_inside_def val_simps val_number)
  have h3: "\<not> x_inside ?c (update ?c ?p)"
    by (simp add: x_inside_def update_def Let_def val_simps val_number r_a r_b r_s)
  then have h3': "\<not> x_inside ?c ((update ?c ^^ Suc 0) ?p)"
    by simp
  have h4: "number (width ?c) < px (update ?c ?p)"
    by (simp add: update_def Let_def val_simps val_number r_a r_b r_s)
  have h5: "x_slow ?p"
    by (simp add: x_slow_def less_eq_double.rep_eq val_quarter) (simp add: val_simps r_b)
  have h6: "width ?c < 2 ^ 52"
    by simp
  show ?thesis
    using h1 h2 h3 h3' h4 h5 h6 C3_one_step_overshoot [of ?c ?p 0] by blast
qed

text \<open>
  C4, as stated, fails once the bounds change. A particle sits inside an 800 by 600
  surface at \<open>x = 600\<close> with \<open>vx = 0.125\<close>. After one frame the surface is resized to
  400 by 600. In each of the next three frames the particle is beyond the new right
  edge, so each frame inverts \<open>vx\<close>: three inversions, while \<open>x\<close> stays between 600.125
  and 600.25 and never passes from inside the bounds to outside them.
\<close>

theorem C4_stranded_particle_inverts_every_frame:
  "x_inside \<lparr>width = 800, height = 600, offsetWidth = 800, offsetHeight = 600\<rparr>
     \<lparr>px = lit 600, py = lit 300, vx = lit 0.125, vy = lit 0, psize = lit 2\<rparr>
   \<and> y_inside \<lparr>width = 800, height = 600, offsetWidth = 800, offsetHeight = 600\<rparr>
     \<lparr>px = lit 600, py = lit 300, vx = lit 0.125, vy = lit 0, psize = lit 2\<rparr>
   \<and> resizeCanvas \<lparr>width = 800, height = 600, offsetWidth = 400, offsetHeight = 600\<rparr>
       = \<lparr>width = 400, height = 600, offsetWidth = 400, offsetHeight = 600\<rparr>
   \<and> x_inversions
       [\<lparr>width = 800, height = 600, offsetWidth = 800, offsetHeight = 600\<rparr>,
        \<lparr>width = 400, height = 600, offsetWidth = 400, offsetHeight = 600\<rparr>,
        \<lparr>width = 400, height = 600, offsetWidth = 400, offsetHeight = 600\<rparr>,
        \<lparr>width = 400, height = 600, offsetWidth = 400, offsetHeight = 600\<rparr>]
       \<lparr>px = lit 600, py = lit 300, vx = lit 0.125, vy = lit 0, psize = lit 2\<rparr> = 3
   \<and> x_crossings
       [\<lparr>width = 800, height = 600, offsetWidth = 800, offsetHeight = 600\<rparr>,
        \<lparr>width = 400, height = 600, offsetWidth = 400, offsetHeight = 600\<rparr>,
        \<lparr>width = 400, height = 600, offsetWidth = 400, offsetHeight = 600\<rparr>,
        \<lparr>width = 400, height = 600, offsetWidth = 400, offsetHeight = 600\<rparr>]
       \<lparr>px = lit 600, py = lit 300, vx = lit 0.125, vy = lit 0, psize = lit 2\<rparr> = 0"
proof -
  have e1: "round64 (1 / 8) = 1 / 8"
    using round64_dyadic [where x = "1 / 8" and n = 55 and m = "4503599627370496"] by simp
  have e2: "round64 (4801 / 8) = 4801 / 8"
    using round64_dyadic [where x = "4801 / 8" and n = 43 and m = "5278755324952576"] by simp
  have e3: "round64 (2401 / 4) = 2401 / 4"
    using round64_dyadic [where x = "2401 / 4" and n = 43 and m = "5279854836580352"] by simp
  show ?thesis
    by (simp add: x_inside_def y_inside_def update_def Let_def resizeCanvas_def
        double_eq_iff val_simps val_number round64_minus e1 e2 e3)
qed

text \<open>
  C4, amended. Along any sequence of update steps, with or without resizes, the sign of
  a velocity component is inverted once at every step that carries its coordinate from
  inside the bounds in force to outside them, once at every step of a moving particle
  that its coordinate both begins and ends outside them, and at no other step: the
  inversions are the crossings plus the stranded steps, for each axis by itself. So a
  component inverts exactly once per crossing as long as no step begins and ends outside
  the bounds; and no step does while the bounds stay unchanged (and below \<open>2\<^sup>5\<^sup>2\<close>), for a
  particle that starts inside them with a velocity component in the constructor's
  range. The particle of the specification's scenario (\<open>x = 799.9\<close>, \<open>vx = 0.5\<close>, width
  800) crosses once and inverts once in two steps; the particle stranded by the resize
  above has three stranded steps.
\<close>

theorem C4_inversions_are_crossings_and_stranded_steps:
  "x_inversions cs p = x_crossings cs p + x_stranded cs p
   \<and> y_inversions cs p = y_crossings cs p + y_stranded cs p
   \<and> (width c < 2 ^ 52 \<and> x_inside c q \<and> x_slow q \<longrightarrow>
        x_stranded (replicate n c) q = 0
        \<and> x_inversions (replicate n c) q = x_crossings (replicate n c) q)
   \<and> (height c < 2 ^ 52 \<and> y_inside c q \<and> y_slow q \<longrightarrow>
        y_stranded (replicate n c) q = 0
        \<and> y_inversions (replicate n c) q = y_crossings (replicate n c) q)
   \<and> x_inversions
       [\<lparr>width = 800, height = 600, offsetWidth = 800, offsetHeight = 600\<rparr>,
        \<lparr>width = 800, height = 600, offsetWidth = 800, offsetHeight = 600\<rparr>]
       \<lparr>px = lit 799.9, py = lit 300, vx = lit 0.5, vy = lit 0, psize = lit 2\<rparr> = 1
   \<and> x_crossings
       [\<lparr>width = 800, height = 600, offsetWidth = 800, offsetHeight = 600\<rparr>,
        \<lparr>width = 800, height = 600, offsetWidth = 800, offsetHeight = 600\<rparr>]
       \<lparr>px = lit 799.9, py = lit 300, vx = lit 0.5, vy = lit 0, psize = lit 2\<rparr> = 1
   \<and> x_stranded
       [\<lparr>width = 800, height = 600, offsetWidth = 800, offsetHeight = 600\<rparr>,
        \<lparr>width = 400, height = 600, offsetWidth = 400, offsetHeight = 600\<rparr>,
        \<lparr>width = 400, height = 600, offsetWidth = 400, offsetHeight = 600\<rparr>,
        \<lparr>width = 400, height = 600, offsetWidth = 400, offsetHeight = 600\<rparr>]
       \<lparr>px = lit 600, py = lit 300, vx = lit 0.125, vy = lit 0, psize = lit 2\<rparr> = 3"
proof -
  have s0: "round64 (7999 / 10) = 7035994808464179 / 8796093022208"
    using round64_near [where x = "7999 / 10" and n = 43 and m = "7035994808464179"] by simp
  have s1: "round64 (7040392854975283 / 8796093022208) = 7040392854975283 / 8796093022208"
    using round64_dyadic [where x = "7040392854975283 / 8796093022208" and n = 43 and m = "7040392854975283"] by simp
  have s2: "round64 (7035994808464179 / 8796093022208) = 7035994808464179 / 8796093022208"
    using round64_dyadic [where x = "7035994808464179 / 8796093022208" and n = 43 and m = "7035994808464179"] by simp
  have e1: "round64 (1 / 8) = 1 / 8"
    using round64_dyadic [where x = "1 / 8" and n = 55 and m = "4503599627370496"] by simp
  have e2: "round64 (4801 / 8) = 4801 / 8"
    using round64_dyadic [where x = "4801 / 8" and n = 43 and m = "5278755324952576"] by simp
  have e3: "round64 (2401 / 4) = 2401 / 4"
    using round64_dyadic [where x = "2401 / 4" and n = 43 and m = "5279854836580352"] by simp
  have a: "x_inversions
       [\<lparr>width = 800, height = 600, offsetWidth = 800, offsetHeight = 600\<rparr>,
        \<lparr>width = 800, height = 600, offsetWidth = 800, offsetHeight = 600\<rparr>]
       \<lparr>px = lit 799.9, py = lit 300, vx = lit 0.5, vy = lit 0, psize = lit 2\<rparr> = 1"
    by (simp add: x_inside_def update_def Let_def double_eq_iff val_simps val_number
        round64_minus s0 s1 s2)
  have b: "x_crossings
       [\<lparr>width = 800, height = 600, offsetWidth = 800, offsetHeight = 600\<rparr>,
        \<lparr>width = 800, height = 600, offsetWidth = 800, offsetHeight = 600\<rparr>]
       \<lparr>px = lit 799.9, py = lit 300, vx = lit 0.5, vy = lit 0, psize = lit 2\<rparr> = 1"
    by (simp add: x_inside_def update_def Let_def double_eq_iff val_simps val_number
        round64_minus s0 s1 s2)
  have c: "x_stranded
       [\<lparr>width = 800, height = 600, offsetWidth = 800, offsetHeight = 600\<rparr>,
        \<lparr>width = 400, height = 600, offsetWidth = 400, offsetHeight = 600\<rparr>,
        \<lparr>width = 400, height = 600, offsetWidth = 400, offsetHeight = 600\<rparr>,
        \<lparr>width = 400, height = 600, offsetWidth = 400, offsetHeight = 600\<rparr>]
       \<lparr>px = lit 600, py = lit 300, vx = lit 0.125, vy = lit 0, psize = lit 2\<rparr> = 3"
    by (simp add: x_inside_def update_def Let_def double_eq_iff val_simps val_number
        round64_minus e1 e2 e3)
  have x: "x_stranded (replicate n c) q = 0
        \<and> x_inversions (replicate n c) q = x_crossings (replicate n c) q"
    if "width c < 2 ^ 52" "x_inside c q" "x_slow q"
    using x_never_stranded [OF that(1,3), of n] that(2)
      x_inversions_account [of "replicate n c" q]
    by (simp add: x_settled_def)
  have y: "y_stranded (replicate n c) q = 0
        \<and> y_inversions (replicate n c) q = y_crossings (replicate n c) q"
    if "height c < 2 ^ 52" "y_inside c q" "y_slow q"
    using y_never_stranded [OF that(1,3), of n] that(2)
      y_inversions_account [of "replicate n c" q]
    by (simp add: y_settled_def)
  show ?thesis
    using a b c x y x_inversions_account [of cs p] y_inversions_account [of cs p] by blast
qed

theorem C4_inversions_are_crossings_and_stranded_steps_witness:
  "width \<lparr>width = 800, height = 600, offsetWidth = 800, offsetHeight = 600\<rparr> < 2 ^ 52
   \<and> x_inside \<lparr>width = 800, height = 600, offsetWidth = 800, offsetHeight = 600\<rparr>
       \<lparr>px = lit 799.9, py = lit 300, vx = lit 0.2, vy = lit 0, psize = lit 2\<rparr>
   \<and> x_slow \<lparr>px = lit 799.9, py = lit 300, vx = lit 0.2, vy = lit 0, psize = lit 2\<rparr>
   \<and> x_inversions
       (replicate 3 \<lparr>width = 800, height = 600, offsetWidth = 800, offsetHeight = 600\<rparr>)
       \<lparr>px = lit 799.9, py = lit 300, vx = lit 0.2, vy = lit 0, psize = lit 2\<rparr>
     = x_crossings
       (replicate 3 \<lparr>width = 800, height = 600, offsetWidth = 800, offsetHeight = 600\<rparr>)
       \<lparr>px = lit 799.9, py = lit 300, vx = lit 0.2, vy = lit 0, psize = lit 2\<rparr>
   \<and> height \<lparr>width = 800, height = 600, offsetWidth = 800, offsetHeight = 600\<rparr> < 2 ^ 52
   \<and> y_inside \<lparr>width = 800, height = 600, offsetWidth = 800, offsetHeight = 600\<rparr>
       \<lparr>px = lit 799.9, py = lit 300, vx = lit 0.2, vy = lit 0, psize = lit 2\<rparr>
   \<and> y_slow \<lparr>px = lit 799.9, py = lit 300, vx = lit 0.2, vy = lit 0, psize = lit 2\<rparr>
   \<and> y_stranded
       (replicate 3 \<lparr>width = 800, height = 600, offsetWidth = 800, offsetHeight = 600\<rparr>)
       \<lparr>px = lit 799.9, py = lit 300, vx = lit 0.2, vy = lit 0, psize = lit 2\<rparr> = 0"
proof -
  let ?c = "\<lparr>width = 800, height = 600, offsetWidth = 800, offsetHeight = 600\<rparr>"
  let ?p = "\<lparr>px = lit 799.9, py = lit 300, vx = lit 0.2, vy = lit 0, psize = lit 2\<rparr>"
  have r_a: "round64 (7999 / 10) = 7035994808464179 / 8796093022208"
    using round64_near [where x = "7999 / 10" and n = 43 and m = "7035994808464179"] by simp
  have r_b: "round64 (1 / 5) = 3602879701896397 / 18014398509481984"
    using round64_near [where x = "1 / 5" and n = 55 and m = "7205759403792794"] by simp
  have h1: "width ?c < 2 ^ 52" and h2: "height ?c < 2 ^ 52"
    by simp_all
  have h3: "x_inside ?c ?p"
    by (simp add: x_inside_def val_simps val_number r_a)
  have h4: "y_inside ?c ?p"
    by (simp add: y_inside_def val_simps val_number)
  have h5: "x_slow ?p"
    by (simp add: x_slow_def less_eq_double.rep_eq val_quarter) (simp add: val_simps r_b)
  have h6: "y_slow ?p"
    by (simp add: y_slow_def less_eq_double.rep_eq val_quarter)
  show ?thesis
    using h1 h2 h3 h4 h5 h6
      C4_inversions_are_crossings_and_stranded_steps [of "[]" ?p ?c ?p 3]
    by blast
qed



subsection \<open>Creation and the life of the page\<close>

lemma create_particles_eq:
  "i \<le> particleCount \<Longrightarrow>
   create_particles c rnd i ps = ps @ map (nth_particle c rnd) [i..<particleCount]"
proof (induction c rnd i ps rule: create_particles.induct)
  case (1 c rnd i ps)
  show ?case
  proof (cases "i < particleCount")
    case True
    then show ?thesis
      using "1.IH" [OF True]
      by (subst create_particles.simps) (simp add: upt_conv_Cons nth_particle_def)
  next
    case False
    with "1.prems" show ?thesis
      by (subst create_particles.simps) simp
  qed
qed

lemma length_create_particles: "length (create_particles c rnd 0 []) = 80"
  by (simp add: create_particles_eq) (simp add: particleCount_def)

lemma nth_create_particles:
  "k < 80 \<Longrightarrow> create_particles c rnd 0 [] ! k = nth_particle c rnd k"
  by (simp add: create_particles_eq particleCount_def)

lemma animate_None: "canvasRef st = None \<Longrightarrow> animate st = st"
  by (simp add: animate_def)

lemma animate_Some:
  "canvasRef st = Some c \<Longrightarrow>
   animate st =
     st\<lparr>particles := map (update c) (particles st),
        painted := painted st @ snd (animate_frame c (particles st)),
        frameRequests := frameRequests st @ [nextRequest st],
        nextRequest := nextRequest st + 1,
        animationId := Some (nextRequest st)\<rparr>"
  by (simp add: animate_def animate_frame_eq requestAnimationFrame_def Let_def)

lemma length_particles_animate: "length (particles (animate st)) = length (particles st)"
  by (cases "canvasRef st") (simp_all add: animate_None animate_Some)

lemma isVisible_animate: "isVisible (animate st) = isVisible st"
  by (cases "canvasRef st") (simp_all add: animate_None animate_Some)

lemma length_particles_run_callbacks:
  "length (particles (run_callbacks ks st)) = length (particles st)"
  by (induction ks arbitrary: st) (simp_all add: length_particles_animate)

lemma isVisible_run_callbacks: "isVisible (run_callbacks ks st) = isVisible st"
  by (induction ks arbitrary: st) (simp_all add: isVisible_animate)

lemma unmount_fields:
  "particles (unmount st) = particles st"
  "painted (unmount st) = painted st"
  "isVisible (unmount st) = isVisible st"
  "observing (unmount st) = False"
  "canvasRef (unmount st) = canvasRef st"
  "cleanupInstalled (unmount st) = cleanupInstalled st"
  by (simp_all add: unmount_def observer_cleanup_def particle_cleanup_def
      cancelAnimationFrame_def Let_def split: option.splits)

lemma length_particles_step: "length (particles (step e st)) = length (particles st)"
  by (cases e) (simp_all add: length_particles_run_callbacks unmount_fields Let_def)

lemma length_particles_run: "length (particles (run es st)) = length (particles st)"
  by (induction es arbitrary: st) (simp_all add: length_particles_step)

lemma particle_effect_active:
  "particle_effect rnd (initial (Some cv) True) =
     (initial (Some (resizeCanvas cv)) True)
       \<lparr>resizeListener := True,
        particles := map (update (resizeCanvas cv)) (create_particles (resizeCanvas cv) rnd 0 []),
        painted := snd (animate_frame (resizeCanvas cv) (create_particles (resizeCanvas cv) rnd 0 [])),
        frameRequests := [1],
        nextRequest := 2,
        animationId := Some 1,
        cleanupInstalled := True\<rparr>"
  by (simp add: particle_effect_def initial_def animate_Some Let_def)

lemma particle_effect_inactive:
  "particle_effect rnd (initial None ok) = initial None ok"
  "particle_effect rnd (initial (Some cv) False) = initial (Some cv) False"
  by (simp_all add: particle_effect_def initial_def)

lemma val_number_nonneg: "0 \<le> val (number n)"
  unfolding val_number by (rule round64_nonneg) simp

lemma val_number_ge_one: "0 < n \<Longrightarrow> 1 \<le> val (number n)"
proof -
  assume "0 < n"
  then have "(1::real) \<le> real n" by simp
  then have "round64 1 \<le> round64 (real n)" by (rule round64_mono)
  then show ?thesis by (simp add: val_number)
qed

lemma draw_range:
  assumes "lit 0 \<le> r" and "r < lit 1"
  shows "0 \<le> val r" and "val r \<le> 1 - 1 / 2 ^ 53"
proof -
  show "0 \<le> val r" using assms(1) by (simp add: val_simps)
  have "val r < 1" using assms(2) by (simp add: val_simps)
  with round64_val [of r] show "val r \<le> 1 - 1 / 2 ^ 53" by (rule below_one)
qed

lemma position_nonneg: "lit 0 \<le> r \<Longrightarrow> lit 0 \<le> fmul r (number n)"
proof -
  assume "lit 0 \<le> r"
  then have "0 \<le> val r" by (simp add: val_simps)
  then have "0 \<le> val r * val (number n)" using val_number_nonneg [of n] by simp
  then have "0 \<le> round64 (val r * val (number n))" by (rule round64_nonneg)
  then show ?thesis by (simp add: val_simps)
qed

lemma position_below:
  assumes "lit 0 \<le> r" and "r < lit 1" and "0 < n"
  shows "fmul r (number n) < number n"
proof -
  let ?w = "val (number n)"
  have w1: "1 \<le> ?w" using assms(3) by (rule val_number_ge_one)
  have "val r \<le> 1 - 1 / 2 ^ 53" using assms(1,2) by (rule draw_range)
  then have "val r * ?w \<le> (1 - 1 / 2 ^ 53) * ?w"
    using w1 by (intro mult_right_mono) simp_all
  then have "round64 (val r * ?w) \<le> round64 ((1 - 1 / 2 ^ 53) * ?w)" by (rule round64_mono)
  also have "\<dots> < ?w" using round64_val [of "number n"] w1 by (rule round64_scale_below)
  finally show ?thesis by (simp add: val_simps)
qed

lemma velocity_range:
  assumes "lit 0 \<le> r" and "r < lit 1"
  shows "lit (- 0.25) \<le> fmul (fsub r (lit 0.5)) (lit 0.5)"
    and "fmul (fsub r (lit 0.5)) (lit 0.5) < lit 0.25"
proof -
  let ?u = "round64 (val r - 1 / 2)"
  have r0: "0 \<le> val r" and r1: "val r \<le> 1 - 1 / 2 ^ 53" using assms by (rule draw_range)+
  have a: "round64 (- (1 / 2)) = - (1 / 2)" by (simp add: round64_minus)
  have b: "round64 (1 / 2 - 1 / 2 ^ 53) = 1 / 2 - 1 / 2 ^ 53"
    using round64_dyadic [where x = "1 / 2 - 1 / 2 ^ 53" and n = 53 and m = "2 ^ 52 - 1"] by simp
  have c: "round64 (- (1 / 4)) = - (1 / 4)"
    using round64_dyadic [where x = "- (1 / 4)" and n = 2 and m = "- 1"] by simp
  have d: "round64 ((1 / 2 - 1 / 2 ^ 53) * (1 / 2)) = 1 / 4 - 1 / 2 ^ 54"
    using round64_dyadic [where x = "(1 / 2 - 1 / 2 ^ 53) * (1 / 2)" and n = 54 and m = "2 ^ 52 - 1"]
    by simp
  have e: "round64 (1 / 4) = 1 / 4"
    using round64_dyadic [where x = "1 / 4" and n = 2 and m = 1] by simp
  have "round64 (- (1 / 2)) \<le> ?u" using r0 by (intro round64_mono) simp
  with a have ulo: "- (1 / 2) \<le> ?u" by linarith
  have "?u \<le> round64 (1 / 2 - 1 / 2 ^ 53)" using r1 by (intro round64_mono) simp
  with b have uhi: "?u \<le> 1 / 2 - 1 / 2 ^ 53" by linarith
  have "round64 (- (1 / 4)) \<le> round64 (?u * (1 / 2))" using ulo by (intro round64_mono) simp
  with c have lo: "- (1 / 4) \<le> round64 (?u * (1 / 2))" by linarith
  have "round64 (?u * (1 / 2)) \<le> round64 ((1 / 2 - 1 / 2 ^ 53) * (1 / 2))"
    using uhi by (intro round64_mono) simp
  with d have hi: "round64 (?u * (1 / 2)) \<le> 1 / 4 - 1 / 2 ^ 54" by linarith
  have v: "val (fmul (fsub r (lit 0.5)) (lit 0.5)) = round64 (?u * (1 / 2))"
    by (simp add: val_simps)
  have m: "val (lit (- 0.25)) = - (1 / 4)" using c by (simp add: val_simps)
  have p: "val (lit 0.25) = 1 / 4" using e by (simp add: val_simps)
  show "lit (- 0.25) \<le> fmul (fsub r (lit 0.5)) (lit 0.5)"
    unfolding less_eq_double.rep_eq v m using lo .
  have "round64 (?u * (1 / 2)) < 1 / 4" using hi by simp
  then show "fmul (fsub r (lit 0.5)) (lit 0.5) < lit 0.25"
    unfolding less_double.rep_eq v p .
qed

lemma size_range:
  assumes "lit 0 \<le> r" and "r < lit 1"
  shows "lit 1 \<le> fadd (fmul r (lit 2)) (lit 1)" and "fadd (fmul r (lit 2)) (lit 1) \<le> lit 3"
proof -
  let ?u = "round64 (val r * 2)"
  have r0: "0 \<le> val r" and r1: "val r \<le> 1 - 1 / 2 ^ 53" using assms by (rule draw_range)+
  have b: "round64 ((1 - 1 / 2 ^ 53) * 2) = 2 - 1 / 2 ^ 52"
    using round64_dyadic [where x = "(1 - 1 / 2 ^ 53) * 2" and n = 52 and m = "2 ^ 53 - 1"] by simp
  have d: "round64 (2 - 1 / 2 ^ 52 + 1) = 3"
    using round64_scaled [where x = "2 - 1 / 2 ^ 52 + 1" and n = 51] by (simp add: round_even_def)
  have "0 \<le> ?u" using r0 by (intro round64_nonneg) simp
  then have "round64 1 \<le> round64 (?u + 1)" by (intro round64_mono) simp
  then have lo: "1 \<le> round64 (?u + 1)" by simp
  have "?u \<le> round64 ((1 - 1 / 2 ^ 53) * 2)" using r1 by (intro round64_mono) simp
  with b have "?u \<le> 2 - 1 / 2 ^ 52" by linarith
  then have "round64 (?u + 1) \<le> round64 (2 - 1 / 2 ^ 52 + 1)" by (intro round64_mono) simp
  with d have hi: "round64 (?u + 1) \<le> 3" by linarith
  have v: "val (fadd (fmul r (lit 2)) (lit 1)) = round64 (?u + 1)"
    by (simp add: val_simps)
  show "lit 1 \<le> fadd (fmul r (lit 2)) (lit 1)"
    unfolding less_eq_double.rep_eq v using lo by (simp add: val_simps)
  show "fadd (fmul r (lit 2)) (lit 1) \<le> lit 3"
    unfolding less_eq_double.rep_eq v using hi by (simp add: val_simps)
qed

text \<open>
  C7, as stated, fails at two edges. On a surface of width 0 (a canvas laid out with no
  width) the range \<open>[0, width)\<close> is empty, and the constructor puts the particle at
  \<open>x = 0\<close>. And for the largest draw below 1, which is \<open>1 - 2\<^sup>-\<^sup>5\<^sup>3\<close>, the size
  \<open>Math.random() * 2 + 1\<close> is exactly 3: the exact result \<open>3 - 2\<^sup>-\<^sup>5\<^sup>2\<close> lies half-way between
  two numbers and rounds to 3.
\<close>

theorem C7_ranges_fail_at_the_edges:
  "px (create_particles \<lparr>width = 0, height = 600, offsetWidth = 0, offsetHeight = 600\<rparr>
        (\<lambda>j. lit (1 / 2)) 0 [] ! 0) = lit 0
   \<and> \<not> px (create_particles \<lparr>width = 0, height = 600, offsetWidth = 0, offsetHeight = 600\<rparr>
        (\<lambda>j. lit (1 / 2)) 0 [] ! 0)
       < number (width \<lparr>width = 0, height = 600, offsetWidth = 0, offsetHeight = 600\<rparr>)
   \<and> lit 0 \<le> lit (1 - 1 / 2 ^ 53) \<and> lit (1 - 1 / 2 ^ 53) < lit 1
   \<and> psize (create_particles \<lparr>width = 800, height = 600, offsetWidth = 800, offsetHeight = 600\<rparr>
        (\<lambda>j. lit (1 - 1 / 2 ^ 53)) 0 [] ! 0) = lit 3
   \<and> \<not> psize (create_particles \<lparr>width = 800, height = 600, offsetWidth = 800, offsetHeight = 600\<rparr>
        (\<lambda>j. lit (1 - 1 / 2 ^ 53)) 0 [] ! 0) < lit 3"
proof -
  have q1: "round64 (9007199254740991 / 9007199254740992) = 9007199254740991 / 9007199254740992"
    using round64_dyadic [where x = "9007199254740991 / 9007199254740992" and n = 53 and m = "9007199254740991"] by simp
  have q2: "round64 (9007199254740991 / 4503599627370496) = 9007199254740991 / 4503599627370496"
    using round64_dyadic [where x = "9007199254740991 / 4503599627370496" and n = 52 and m = "9007199254740991"] by simp
  have q3: "round64 (13510798882111487 / 4503599627370496) = 3"
    using round64_scaled [where x = "13510798882111487 / 4503599627370496" and n = 51] by (simp add: round_even_def)
  show ?thesis
    by (simp add: nth_create_particles nth_particle_def Particle_new_def double_eq_iff
        val_simps val_number q1 q2 q3)
qed

text \<open>
  C7, amended. Let every value of the random source lie in \<open>[0, 1)\<close>. Then each of the 80
  created particles has, each from a draw \<open>r\<close> of its own, \<open>x = r * width\<close>,
  \<open>y = r * height\<close>, \<open>vx\<close> and \<open>vy\<close> equal to \<open>(r - 0.5) * 0.5\<close> and size \<open>r * 2 + 1\<close>, every
  operation rounded. Its \<open>x\<close> is at least 0, and below the width when the width is
  positive; its \<open>y\<close> is at least 0, and below the height when the height is positive; each
  velocity component lies in \<open>[-0.25, 0.25)\<close>; and the size lies in \<open>[1, 3]\<close>, the bound 3
  included.
\<close>

theorem C7_created_particle_ranges:
  assumes "\<forall>j. lit 0 \<le> rnd j \<and> rnd j < lit 1" and "k < 80"
  shows
    "px (create_particles c rnd 0 [] ! k) = fmul (rnd (5 * k)) (number (width c))
     \<and> py (create_particles c rnd 0 [] ! k) = fmul (rnd (5 * k + 1)) (number (height c))
     \<and> vx (create_particles c rnd 0 [] ! k) = fmul (fsub (rnd (5 * k + 2)) (lit 0.5)) (lit 0.5)
     \<and> vy (create_particles c rnd 0 [] ! k) = fmul (fsub (rnd (5 * k + 3)) (lit 0.5)) (lit 0.5)
     \<and> psize (create_particles c rnd 0 [] ! k) = fadd (fmul (rnd (5 * k + 4)) (lit 2)) (lit 1)
     \<and> lit 0 \<le> px (create_particles c rnd 0 [] ! k)
     \<and> (0 < width c \<longrightarrow> px (create_particles c rnd 0 [] ! k) < number (width c))
     \<and> lit 0 \<le> py (create_particles c rnd 0 [] ! k)
     \<and> (0 < height c \<longrightarrow> py (create_particles c rnd 0 [] ! k) < number (height c))
     \<and> lit (- 0.25) \<le> vx (create_particles c rnd 0 [] ! k)
     \<and> vx (create_particles c rnd 0 [] ! k) < lit 0.25
     \<and> lit (- 0.25) \<le> vy (create_particles c rnd 0 [] ! k)
     \<and> vy (create_particles c rnd 0 [] ! k) < lit 0.25
     \<and> lit 1 \<le> psize (create_particles c rnd 0 [] ! k)
     \<and> psize (create_particles c rnd 0 [] ! k) \<le> lit 3"
proof -
  have p: "create_particles c rnd 0 [] ! k = nth_particle c rnd k"
    using assms(2) by (rule nth_create_particles)
  have r: "lit 0 \<le> rnd j" "rnd j < lit 1" for j
    using assms(1) by simp_all
  show ?thesis
    unfolding p nth_particle_def Particle_new_def
    using position_nonneg [OF r(1)] position_below [OF r] velocity_range [OF r] size_range [OF r]
    by simp
qed

theorem C7_created_particle_ranges_witness:
  "(\<forall>j. lit 0 \<le> (\<lambda>j. lit (1 / 2)) j \<and> (\<lambda>j. lit (1 / 2)) j < lit 1) \<and> (3::nat) < 80
   \<and> 0 < width \<lparr>width = 800, height = 600, offsetWidth = 800, offsetHeight = 600\<rparr>
   \<and> 0 < height \<lparr>width = 800, height = 600, offsetWidth = 800, offsetHeight = 600\<rparr>
   \<and> px (create_particles \<lparr>width = 800, height = 600, offsetWidth = 800, offsetHeight = 600\<rparr>
        (\<lambda>j. lit (1 / 2)) 0 [] ! 3)
       < number (width \<lparr>width = 800, height = 600, offsetWidth = 800, offsetHeight = 600\<rparr>)
   \<and> py (create_particles \<lparr>width = 800, height = 600, offsetWidth = 800, offsetHeight = 600\<rparr>
        (\<lambda>j. lit (1 / 2)) 0 [] ! 3)
       < number (height \<lparr>width = 800, height = 600, offsetWidth = 800, offsetHeight = 600\<rparr>)
   \<and> vx (create_particles \<lparr>width = 800, height = 600, offsetWidth = 800, offsetHeight = 600\<rparr>
        (\<lambda>j. lit (1 / 2)) 0 [] ! 3) < lit 0.25
   \<and> psize (create_particles \<lparr>width = 800, height = 600, offsetWidth = 800, offsetHeight = 600\<rparr>
        (\<lambda>j. lit (1 / 2)) 0 [] ! 3) \<le> lit 3"
proof -
  have h1: "\<forall>j. lit 0 \<le> (\<lambda>j. lit (1 / 2)) j \<and> (\<lambda>j. lit (1 / 2)) j < lit 1"
    by (simp add: val_simps)
  have h2: "(3::nat) < 80"
    by simp
  have h3: "0 < width \<lparr>width = 800, height = 600, offsetWidth = 800, offsetHeight = 600\<rparr>"
    and h4: "0 < height \<lparr>width = 800, height = 600, offsetWidth = 800, offsetHeight = 600\<rparr>"
    by simp_all
  show ?thesis
    using h1 h2 h3 h4 C7_created_particle_ranges [OF h1 h2,
        of "\<lparr>width = 800, height = 600, offsetWidth = 800, offsetHeight = 600\<rparr>"]
    by blast
qed

subsection \<open>Invariants of a run\<close>

lemma quiet_step:
  assumes "quiet st"
  shows "quiet (step e st)" and "particles (step e st) = particles st"
    and "painted (step e st) = painted st" and "isVisible (step e st) = isVisible st"
  using assms
  by (cases e; simp add: quiet_def unmount_def observer_cleanup_def particle_cleanup_def
      cancelAnimationFrame_def Let_def split: option.splits)+

lemma quiet_run:
  "quiet st \<Longrightarrow> quiet (run es st) \<and> particles (run es st) = particles st
     \<and> painted (run es st) = painted st \<and> isVisible (run es st) = isVisible st"
  by (induction es arbitrary: st) (simp_all add: quiet_step)

lemma single_request_animate:
  "frameRequests st = [] \<Longrightarrow> cleanupInstalled st \<Longrightarrow> single_request (animate st)"
  by (cases "canvasRef st") (simp_all add: animate_None animate_Some single_request_def)

lemma single_request_step: "single_request st \<Longrightarrow> single_request (step e st)"
proof (cases e)
  case Refresh
  assume g: "single_request st"
  show ?thesis
  proof (cases "frameRequests st")
    case Nil
    with g Refresh show ?thesis by (simp add: single_request_def)
  next
    case (Cons k ks)
    with g have ks: "ks = []" and ci: "cleanupInstalled st"
      by (auto simp: single_request_def)
    show ?thesis
      using Refresh Cons ks ci by (simp add: single_request_animate)
  qed
next
  case (WindowResize w h)
  assume "single_request st"
  with WindowResize show ?thesis by (auto simp: single_request_def Let_def)
next
  case (Intersections es)
  assume "single_request st"
  with Intersections show ?thesis by (simp add: single_request_def)
next
  case Unmount
  assume "single_request st"
  with Unmount show ?thesis
    by (auto simp: single_request_def unmount_def observer_cleanup_def particle_cleanup_def
        cancelAnimationFrame_def Let_def split: option.splits)
qed

lemma single_request_run: "single_request st \<Longrightarrow> single_request (run es st)"
  by (induction es arbitrary: st) (simp_all add: single_request_step)

lemma single_request_mount: "single_request (mount rnd (initial cv ok))"
proof (cases cv)
  case None
  then show ?thesis
    by (simp add: mount_def observer_effect_def particle_effect_inactive)
       (simp add: single_request_def initial_def)
next
  case (Some c)
  show ?thesis
  proof (cases ok)
    case True
    with Some show ?thesis
      by (simp add: mount_def observer_effect_def particle_effect_active)
         (simp add: single_request_def initial_def)
  next
    case False
    with Some show ?thesis
      by (simp add: mount_def observer_effect_def particle_effect_inactive)
         (simp add: single_request_def initial_def)
  qed
qed

lemma quiet_unmount: "single_request st \<Longrightarrow> quiet (unmount st)"
  by (auto simp: single_request_def quiet_def unmount_def observer_cleanup_def particle_cleanup_def
      cancelAnimationFrame_def Let_def split: option.splits)

lemma idle_step: "idle st \<Longrightarrow> idle (step e st)"
  by (cases e) (simp_all add: idle_def unmount_def observer_cleanup_def Let_def)

lemma idle_run: "idle st \<Longrightarrow> idle (run es st)"
  by (induction es arbitrary: st) (simp_all add: idle_step)

lemma refresh_paints:
  "painted (step Refresh (mount rnd (initial (Some cv) True)))
     \<noteq> painted (mount rnd (initial (Some cv) True))"
  by (simp add: mount_def observer_effect_def particle_effect_active)
     (simp add: initial_def animate_Some animate_frame_eq)

text \<open>
  C6. The creation loop makes exactly 80 particles. An activation that finds its canvas
  and context holds 80 particles after mounting and after any sequence of events; no
  event changes the number of particles of any page, and a frame replaces each particle
  by its update, at the same index.
\<close>

theorem C6_eighty_particles_throughout:
  "length (create_particles c rnd 0 []) = 80
   \<and> length (particles (mount rnd (initial (Some cv) True))) = 80
   \<and> length (particles (run es (mount rnd (initial (Some cv) True)))) = 80
   \<and> length (particles (step e st)) = length (particles st)
   \<and> particles (animate (st\<lparr>canvasRef := Some c\<rparr>)) = map (update c) (particles st)"
  by (simp add: length_particles_run length_particles_step animate_Some
      mount_def observer_effect_def particle_effect_active length_create_particles)

text \<open>
  C8. When the canvas is not mounted, or it is and yields no 2D context, the particle
  effect returns the page as it found it: no resize of the canvas, no listener, no
  particle, no frame, no cleanup. The effect has no failing statement on these paths (it
  returns at its guard, before the canvas or the context is used). From then on, whatever
  the events, the page has no particles, has painted nothing, has no pending frame
  request and no resize listener.
\<close>

theorem C8_no_surface_no_animation:
  "particle_effect rnd (initial None ok) = initial None ok
   \<and> particle_effect rnd (initial (Some cv) False) = initial (Some cv) False
   \<and> particles (run es (mount rnd (initial None ok))) = []
   \<and> painted (run es (mount rnd (initial None ok))) = []
   \<and> frameRequests (run es (mount rnd (initial None ok))) = []
   \<and> \<not> resizeListener (run es (mount rnd (initial None ok)))
   \<and> particles (run es (mount rnd (initial (Some cv) False))) = []
   \<and> painted (run es (mount rnd (initial (Some cv) False))) = []
   \<and> frameRequests (run es (mount rnd (initial (Some cv) False))) = []
   \<and> \<not> resizeListener (run es (mount rnd (initial (Some cv) False)))"
proof -
  have a: "idle (mount rnd (initial None ok))"
    by (simp add: mount_def observer_effect_def particle_effect_inactive)
       (simp add: idle_def initial_def)
  have b: "idle (mount rnd (initial (Some cv) False))"
    by (simp add: mount_def observer_effect_def particle_effect_inactive)
       (simp add: idle_def initial_def)
  show ?thesis
    using idle_run [OF a, of es] idle_run [OF b, of es]
    by (simp add: idle_def particle_effect_inactive)
qed

text \<open>
  C9. Tearing the component down, after any sequence of events from mounting on, leaves
  no pending frame request, no resize listener and a disconnected observer. Whatever
  events follow (display refreshes, window resizes, batches of intersection entries),
  the particles, the painting and the visibility flags stay as they were at teardown,
  and no frame request appears. Before teardown a display refresh does paint.
\<close>

theorem C9_nothing_happens_after_teardown:
  "frameRequests (step Unmount (run es (mount rnd (initial cv ok)))) = []
   \<and> \<not> resizeListener (step Unmount (run es (mount rnd (initial cv ok))))
   \<and> \<not> observing (step Unmount (run es (mount rnd (initial cv ok))))
   \<and> particles (run es' (step Unmount (run es (mount rnd (initial cv ok)))))
       = particles (run es (mount rnd (initial cv ok)))
   \<and> painted (run es' (step Unmount (run es (mount rnd (initial cv ok)))))
       = painted (run es (mount rnd (initial cv ok)))
   \<and> isVisible (run es' (step Unmount (run es (mount rnd (initial cv ok)))))
       = isVisible (run es (mount rnd (initial cv ok)))
   \<and> frameRequests (run es' (step Unmount (run es (mount rnd (initial cv ok))))) = []
   \<and> painted (step Refresh (mount rnd (initial (Some c) True)))
       \<noteq> painted (mount rnd (initial (Some c) True))"
proof -
  let ?st = "run es (mount rnd (initial cv ok))"
  have "single_request ?st"
    by (intro single_request_run single_request_mount)
  then have q: "quiet (step Unmount ?st)"
    by (simp add: quiet_unmount)
  have "quiet (run es' (step Unmount ?st))"
    using quiet_run [OF q, of es'] by simp
  then show ?thesis
    using q quiet_run [OF q, of es'] refresh_paints [of rnd c]
    by (simp add: unmount_fields quiet_def)
qed

subsection \<open>Visibility flags\<close>

lemma visible_observer_callback_mono:
  "visible m k \<Longrightarrow> visible (observer_callback es m) k"
  by (induction es arbitrary: m) (simp_all add: visible_def setIsVisible_true_def)

lemma visible_observer_callback_other:
  "\<not> (\<exists>e\<in>set es. target_id e = k \<and> isIntersecting e) \<Longrightarrow>
   visible (observer_callback es m) k = visible m k"
proof (induction es arbitrary: m)
  case Nil
  show ?case by simp
next
  case (Cons e es)
  then have "visible (observer_callback es m') k = visible m' k" for m'
    by simp
  moreover have "visible (setIsVisible_true (target_id e) m) k = visible m k" if "isIntersecting e"
    using Cons.prems that by (auto simp: visible_def setIsVisible_true_def)
  ultimately show ?case by simp
qed

lemma isVisible_step:
  "isVisible (step e st) =
     (case e of Intersections es \<Rightarrow>
        if observing st then observer_callback es (isVisible st) else isVisible st
      | _ \<Rightarrow> isVisible st)"
  by (cases e) (simp_all add: isVisible_run_callbacks unmount_fields Let_def)

lemma visible_step_mono: "visible (isVisible st) k \<Longrightarrow> visible (isVisible (step e st)) k"
  by (simp add: isVisible_step visible_observer_callback_mono split: event.splits)

lemma visible_run_mono: "visible (isVisible st) k \<Longrightarrow> visible (isVisible (run es st)) k"
  by (induction es arbitrary: st) (simp_all add: visible_step_mono)

lemma visible_step_unqualified:
  "\<not> qualifying k e \<Longrightarrow> visible (isVisible (step e st)) k = visible (isVisible st) k"
  by (cases e) (simp_all only: isVisible_step, simp_all add: visible_observer_callback_other)

lemma visible_run_unqualified:
  "\<not> list_ex (qualifying k) es \<Longrightarrow> visible (isVisible (run es st)) k = visible (isVisible st) k"
  by (induction es arbitrary: st) (simp_all add: visible_step_unqualified)

lemma isVisible_mount: "isVisible (mount rnd (initial cv ok)) = Map.empty"
  by (cases cv; cases ok)
     (simp_all add: mount_def observer_effect_def particle_effect_inactive particle_effect_active,
      simp_all add: initial_def)

lemma observing_mount: "observing (mount rnd st)"
  by (simp add: mount_def observer_effect_def)

text \<open>
  C5. A flag that reads true reads true after any further events, whatever they report.
  A section for which no event qualifies (no delivered entry reports it as intersecting
  at the observer's threshold of 0.1) reads false after any sequence of events from
  mounting on. After mounting, one entry that reports \<open>concepts\<close> as intersecting makes
  \<open>concepts\<close> read true and leaves \<open>features\<close> false.
\<close>

theorem C5_flags_only_ever_set:
  "(visible (isVisible st) k \<longrightarrow> visible (isVisible (run es st)) k)
   \<and> (\<not> list_ex (qualifying k') es' \<longrightarrow>
        \<not> visible (isVisible (run es' (mount rnd (initial cv ok)))) k')
   \<and> visible (isVisible (step (Intersections [\<lparr>target_id = ''concepts'', isIntersecting = True\<rparr>])
        (mount rnd (initial cv ok)))) ''concepts''
   \<and> \<not> visible (isVisible (step (Intersections [\<lparr>target_id = ''concepts'', isIntersecting = True\<rparr>])
        (mount rnd (initial cv ok)))) ''features''"
  by (simp add: visible_run_mono visible_run_unqualified isVisible_mount observing_mount)
     (simp add: visible_def setIsVisible_true_def)

theorem C5_flags_only_ever_set_witness:
  "visible (isVisible (step (Intersections [\<lparr>target_id = ''concepts'', isIntersecting = True\<rparr>])
        (mount (\<lambda>j. lit (1 / 2)) (initial None True)))) ''concepts''
   \<and> visible (isVisible (run [Intersections [\<lparr>target_id = ''concepts'', isIntersecting = False\<rparr>], Refresh]
        (step (Intersections [\<lparr>target_id = ''concepts'', isIntersecting = True\<rparr>])
        (mount (\<lambda>j. lit (1 / 2)) (initial None True))))) ''concepts''
   \<and> \<not> list_ex (qualifying ''features'')
        [Intersections [\<lparr>target_id = ''concepts'', isIntersecting = True\<rparr>,
                        \<lparr>target_id = ''features'', isIntersecting = False\<rparr>], Refresh]
   \<and> \<not> visible (isVisible (run
        [Intersections [\<lparr>target_id = ''concepts'', isIntersecting = True\<rparr>,
                        \<lparr>target_id = ''features'', isIntersecting = False\<rparr>], Refresh]
        (mount (\<lambda>j. lit (1 / 2)) (initial None True)))) ''features''"
proof -
  let ?st = "step (Intersections [\<lparr>target_id = ''concepts'', isIntersecting = True\<rparr>])
        (mount (\<lambda>j. lit (1 / 2)) (initial None True))"
  let ?es = "[Intersections [\<lparr>target_id = ''concepts'', isIntersecting = True\<rparr>,
                        \<lparr>target_id = ''features'', isIntersecting = False\<rparr>], Refresh]"
  have h1: "visible (isVisible ?st) ''concepts''"
    by (simp add: observing_mount isVisible_mount visible_def setIsVisible_true_def)
  have h2: "\<not> list_ex (qualifying ''features'') ?es"
    by simp
  show ?thesis
    using h1 h2
      C5_flags_only_ever_set [of ?st "''concepts''"
        "[Intersections [\<lparr>target_id = ''concepts'', isIntersecting = False\<rparr>], Refresh]"
        "''features''" ?es "\<lambda>j. lit (1 / 2)" None True]
    by blast
qed

end
